theory Spec2Isabelle
  imports Main
begin

section \<open>The cooperative threading runtime of threadlib.cpp\<close>

text \<open>
  The embedding follows \<^verbatim>\<open>src/src/threadlib.cpp\<close>, on its ucontext branch (the
  \<^verbatim>\<open>#else\<close> of \<^verbatim>\<open>_WIN32\<close>). The process-wide singletons \<^verbatim>\<open>g_sched\<close>,
  \<^verbatim>\<open>g_threads\<close>, \<^verbatim>\<open>g_current\<close>, \<^verbatim>\<open>g_next_tid\<close>, \<^verbatim>\<open>g_resources\<close>, \<^verbatim>\<open>g_tls\<close> and
  \<^verbatim>\<open>g_log\<close> are the fields of one record that every operation takes and returns.
  The clock \<^verbatim>\<open>now_ms()\<close> and the environment variable are inputs of the operations
  that read them. C++ \<^verbatim>\<open>int\<close> values are HOL integers; the one subtraction whose
  operand the caller chooses freely (\<^verbatim>\<open>thread_work\<close>) checks the 32-bit range, since
  signed overflow is undefined there. Indexing a vector out of range, reading the front of
  an empty deque and switching to a context that was never initialised are undefined in
  C++; here they are faults.
\<close>

subsection \<open>Data\<close>

datatype ThreadState = NEW | READY | RUNNING | BLOCKED | SLEEPING | FINISHED

datatype SchedPolicy = RoundRobin | Priority | MLFQ

text \<open>
  What the \<^verbatim>\<open>ucontext_t\<close> of a task holds: nothing yet (value-initialised), the entry
  built by \<^verbatim>\<open>makecontext\<close> for \<^verbatim>\<open>context_trampoline\<close>, or the machine state saved by
  \<^verbatim>\<open>swapcontext\<close> inside \<^verbatim>\<open>platform_yield_to_scheduler\<close>.
\<close>

datatype Context = Zeroed | Made | Saved

datatype fault = OutOfRange int | SignedOverflow | EmptyDeque | BadContext int

text \<open>The field \<^verbatim>\<open>func\<close> (the task body) is opaque and left out.\<close>

record Thread =
  tid :: int
  base_priority :: int
  dyn_priority :: int
  state :: ThreadState
  name :: string
  cx :: Context
  wake_time_ms :: int
  quantum_budget :: int
  mlfq_level :: int

record Scheduler =
  policy :: SchedPolicy
  rrq :: "int list"
  mlfq :: "int list list"
  levels :: int
  quantum_by_level :: "int list"
  enable_aging :: bool
  aging_interval_ms :: int
  last_age_ms :: int

text \<open>
  One line of the trace: event, tid, info. The timestamp column is the clock's reading and
  is not kept. \<^verbatim>\<open>Logger::log\<close> writes the line when the file is open; the model records
  every call.
\<close>

type_synonym event = "string \<times> int \<times> string"

record Runtime =
  g_sched :: Scheduler
  g_threads :: "Thread list"
  g_current :: int
  g_next_tid :: int
  g_resources :: "string \<rightharpoonup> int list"
  g_tls :: "int \<rightharpoonup> (string \<rightharpoonup> int)"
  g_log :: "event list"

text \<open>
  A call of the API made by a task either returns to the task or reaches
  \<^verbatim>\<open>platform_yield_to_scheduler\<close>, where the scheduler takes over until a later
  \<^verbatim>\<open>switch_to_thread\<close> resumes the task inside the call.
\<close>

datatype 'a outcome = Returned 'a Runtime | Suspended Runtime

datatype sched_step = Idle Runtime | Dispatched int Runtime

subsection \<open>Helpers\<close>

definition vec_at :: "'a list \<Rightarrow> int \<Rightarrow> fault + 'a" where
  "vec_at xs i = (if 0 \<le> i \<and> i < int (length xs) then Inr (xs ! nat i) else Inl (OutOfRange i))"

definition clamp :: "int \<Rightarrow> int \<Rightarrow> int \<Rightarrow> int" where
  \<comment> \<open>\<^verbatim>\<open>std::clamp(v, lo, hi)\<close>\<close>
  "clamp v lo hi = (if v < lo then lo else if hi < v then hi else v)"

definition int_sub :: "int \<Rightarrow> int \<Rightarrow> fault + int" where
  \<comment> \<open>\<^verbatim>\<open>a - b\<close> on \<^verbatim>\<open>int\<close>\<close>
  "int_sub a b = (if - (2 ^ 31) \<le> a - b \<and> a - b < 2 ^ 31 then Inr (a - b) else Inl SignedOverflow)"

fun digits_of :: "nat \<Rightarrow> string" where
  "digits_of n =
     (if n < 10 then [char_of (48 + n)]
      else digits_of (n div 10) @ [char_of (48 + n mod 10)])"

definition to_string :: "int \<Rightarrow> string" where
  \<comment> \<open>\<^verbatim>\<open>std::to_string\<close> on an \<^verbatim>\<open>int\<close>\<close>
  "to_string i = (if i < 0 then CHR ''-'' # digits_of (nat (- i)) else digits_of (nat i))"

definition log_event :: "string \<Rightarrow> int \<Rightarrow> string \<Rightarrow> Runtime \<Rightarrow> Runtime" where
  \<comment> \<open>\<^verbatim>\<open>g_log.log(event, tid, info)\<close>\<close>
  "log_event ev t info rt = rt\<lparr>g_log := g_log rt @ [(ev, t, info)]\<rparr>"

subsection \<open>Scheduler\<close>

definition set_policy_from_env :: "string option \<Rightarrow> Scheduler \<Rightarrow> Scheduler" where
  \<comment> \<open>the argument is \<^verbatim>\<open>std::getenv("SCHED")\<close>, \<open>None\<close> for a null pointer\<close>
  "set_policy_from_env env s0 =
     (let s = (if policy s0 \<noteq> RoundRobin \<and> policy s0 \<noteq> Priority \<and> policy s0 \<noteq> MLFQ
               then s0\<lparr>policy := RoundRobin\<rparr> else s0)
      in case env of
           None \<Rightarrow> s
         | Some v \<Rightarrow>
             if v = ''prio'' \<or> v = ''priority'' then s\<lparr>policy := Priority\<rparr>
             else if v = ''mlfq'' then s\<lparr>policy := MLFQ\<rparr>
             else s\<lparr>policy := RoundRobin\<rparr>)"

definition init_mlfq_if_needed :: "Scheduler \<Rightarrow> Scheduler" where
  "init_mlfq_if_needed s0 =
     (let s = (if int (length (mlfq s0)) \<noteq> levels s0
               then s0\<lparr>mlfq := replicate (nat (levels s0)) []\<rparr> else s0)
      in if int (length (quantum_by_level s)) \<noteq> levels s
         then s\<lparr>quantum_by_level := map (\<lambda>i. max 1 (drop_bit i 8)) [0..<nat (levels s)]\<rparr>
         else s)"

definition enqueue_rr :: "int \<Rightarrow> Scheduler \<Rightarrow> Scheduler" where
  "enqueue_rr t s = s\<lparr>rrq := rrq s @ [t]\<rparr>"

text \<open>
  The scan of \<^verbatim>\<open>enqueue_prio\<close>: the iterator walks the deque and stops at the first
  element that the incoming task outranks; \<^verbatim>\<open>ths[tid]\<close> is read once per element
  visited, so not at all on an empty deque.
\<close>

fun enqueue_prio_scan :: "Thread list \<Rightarrow> int \<Rightarrow> int list \<Rightarrow> fault + int list" where
  "enqueue_prio_scan ths t [] = Inr [t]"
| "enqueue_prio_scan ths t (x # q) =
     (case vec_at ths t of
        Inl e \<Rightarrow> Inl e
      | Inr th \<Rightarrow>
          (case vec_at ths x of
             Inl e \<Rightarrow> Inl e
           | Inr tx \<Rightarrow>
               if base_priority th > base_priority tx then Inr (t # x # q)
               else (case enqueue_prio_scan ths t q of
                       Inl e \<Rightarrow> Inl e
                     | Inr q' \<Rightarrow> Inr (x # q'))))"

definition enqueue_prio :: "Thread list \<Rightarrow> int \<Rightarrow> Scheduler \<Rightarrow> fault + Scheduler" where
  "enqueue_prio ths t s =
     (case enqueue_prio_scan ths t (rrq s) of
        Inl e \<Rightarrow> Inl e
      | Inr q' \<Rightarrow> Inr (s\<lparr>rrq := q'\<rparr>))"

definition enqueue_mlfq :: "Thread list \<Rightarrow> int \<Rightarrow> Scheduler \<Rightarrow> fault + (Scheduler \<times> Thread list)" where
  "enqueue_mlfq ths t s0 =
     (let s = init_mlfq_if_needed s0 in
      case vec_at ths t of
        Inl e \<Rightarrow> Inl e
      | Inr th \<Rightarrow>
          let lvl = clamp (mlfq_level th) 0 (levels s - 1) in
          (case vec_at (quantum_by_level s) lvl of
             Inl e \<Rightarrow> Inl e
           | Inr q \<Rightarrow>
               (case vec_at (mlfq s) lvl of
                  Inl e \<Rightarrow> Inl e
                | Inr dq \<Rightarrow>
                    Inr (s\<lparr>mlfq := (mlfq s)[nat lvl := dq @ [t]]\<rparr>,
                         ths[nat t := th\<lparr>mlfq_level := lvl, quantum_budget := q\<rparr>]))))"

definition enqueue :: "Thread list \<Rightarrow> int \<Rightarrow> Scheduler \<Rightarrow> fault + (Scheduler \<times> Thread list)" where
  "enqueue ths t s =
     (case policy s of
        RoundRobin \<Rightarrow> Inr (enqueue_rr t s, ths)
      | Priority \<Rightarrow>
          (case enqueue_prio ths t s of Inl e \<Rightarrow> Inl e | Inr s' \<Rightarrow> Inr (s', ths))
      | MLFQ \<Rightarrow> enqueue_mlfq ths t s)"

definition sched_empty :: "Scheduler \<Rightarrow> bool" where
  \<comment> \<open>\<^verbatim>\<open>Scheduler::empty\<close>\<close>
  "sched_empty s = (if policy s = MLFQ then list_all (\<lambda>q. q = []) (mlfq s) else rrq s = [])"

text \<open>The level loop of \<^verbatim>\<open>pop\<close>, over \<^verbatim>\<open>lvl = 0, ..., levels - 1\<close>.\<close>

fun pop_scan :: "int list list \<Rightarrow> nat list \<Rightarrow> fault + (int \<times> int list list)" where
  "pop_scan qs [] = Inr (- 1, qs)"
| "pop_scan qs (lvl # rest) =
     (case vec_at qs (int lvl) of
        Inl e \<Rightarrow> Inl e
      | Inr [] \<Rightarrow> pop_scan qs rest
      | Inr (t # dq) \<Rightarrow> Inr (t, qs[lvl := dq]))"

definition pop :: "Scheduler \<Rightarrow> fault + (int \<times> Scheduler)" where
  "pop s0 =
     (if policy s0 = MLFQ then
        (let s = init_mlfq_if_needed s0 in
         case pop_scan (mlfq s) [0..<nat (levels s)] of
           Inl e \<Rightarrow> Inl e
         | Inr (t, qs) \<Rightarrow> Inr (t, s\<lparr>mlfq := qs\<rparr>))
      else
        (case rrq s0 of
           [] \<Rightarrow> Inl EmptyDeque
         | t # q \<Rightarrow> Inr (t, s0\<lparr>rrq := q\<rparr>)))"

definition demote_mlfq :: "Scheduler \<Rightarrow> Thread list \<Rightarrow> int \<Rightarrow> fault + Thread list" where
  "demote_mlfq s ths t =
     (if policy s \<noteq> MLFQ then Inr ths
      else case vec_at ths t of
             Inl e \<Rightarrow> Inl e
           | Inr th \<Rightarrow>
               let lvl = min (mlfq_level th + 1) (levels s - 1) in
               (case vec_at (quantum_by_level s) lvl of
                  Inl e \<Rightarrow> Inl e
                | Inr q \<Rightarrow> Inr (ths[nat t := th\<lparr>mlfq_level := lvl, quantum_budget := q\<rparr>])))"

definition promote_mlfq :: "Scheduler \<Rightarrow> Thread list \<Rightarrow> int \<Rightarrow> fault + Thread list" where
  "promote_mlfq s ths t =
     (if policy s \<noteq> MLFQ then Inr ths
      else case vec_at ths t of
             Inl e \<Rightarrow> Inl e
           | Inr th \<Rightarrow>
               let lvl = max (mlfq_level th - 1) 0 in
               (case vec_at (quantum_by_level s) lvl of
                  Inl e \<Rightarrow> Inl e
                | Inr q \<Rightarrow> Inr (ths[nat t := th\<lparr>mlfq_level := lvl, quantum_budget := q\<rparr>])))"

text \<open>
  The loop of \<^verbatim>\<open>maybe_age\<close>, over \<^verbatim>\<open>lvl = levels - 1, ..., 1\<close>: the first non-empty
  level gives up its head, and the loop breaks.
\<close>

fun age_scan :: "nat list \<Rightarrow> Runtime \<Rightarrow> fault + Runtime" where
  "age_scan [] rt = Inr rt"
| "age_scan (lvl # rest) rt =
     (case vec_at (mlfq (g_sched rt)) (int lvl) of
        Inl e \<Rightarrow> Inl e
      | Inr [] \<Rightarrow> age_scan rest rt
      | Inr (t # dq) \<Rightarrow>
          (case vec_at (g_threads rt) t of
             Inl e \<Rightarrow> Inl e
           | Inr th \<Rightarrow>
               (case vec_at (quantum_by_level (g_sched rt)) (int lvl - 1) of
                  Inl e \<Rightarrow> Inl e
                | Inr q \<Rightarrow>
                    (let qs1 = (mlfq (g_sched rt))[lvl := dq];
                         qs2 = qs1[lvl - 1 := qs1 ! (lvl - 1) @ [t]];
                         th' = th\<lparr>mlfq_level := int lvl - 1, quantum_budget := q\<rparr>
                     in Inr (log_event ''age'' t ''promote''
                               (rt\<lparr>g_sched := (g_sched rt)\<lparr>mlfq := qs2\<rparr>,
                                   g_threads := (g_threads rt)[nat t := th']\<rparr>))))))"

definition maybe_age :: "int \<Rightarrow> Runtime \<Rightarrow> fault + Runtime" where
  \<comment> \<open>the first argument is the reading of \<^verbatim>\<open>now_ms()\<close>\<close>
  "maybe_age now rt =
     (let s = g_sched rt in
      if policy s \<noteq> MLFQ \<or> \<not> enable_aging s then Inr rt
      else if now - last_age_ms s < aging_interval_ms s then Inr rt
      else age_scan (rev [1..<nat (levels s)]) (rt\<lparr>g_sched := s\<lparr>last_age_ms := now\<rparr>\<rparr>))"

subsection \<open>Runtime and API\<close>

definition thread_create :: "string \<Rightarrow> int \<Rightarrow> Runtime \<Rightarrow> int \<times> Runtime" where
  "thread_create nm priority rt =
     (let t = g_next_tid rt;
          th = \<lparr>tid = t, base_priority = clamp priority 1 10,
                dyn_priority = clamp priority 1 10, state = NEW, name = nm, cx = Zeroed,
                wake_time_ms = 0, quantum_budget = 8, mlfq_level = 0\<rparr>
      in (t, rt\<lparr>g_next_tid := t + 1, g_threads := g_threads rt @ [th]\<rparr>))"

definition set_policy :: "SchedPolicy \<Rightarrow> Runtime \<Rightarrow> Runtime" where
  "set_policy p rt = rt\<lparr>g_sched := (g_sched rt)\<lparr>policy := p\<rparr>\<rparr>"

definition tls_set :: "string \<Rightarrow> int \<Rightarrow> Runtime \<Rightarrow> Runtime" where
  \<comment> \<open>\<^verbatim>\<open>g_tls[tid][key] = value\<close>: \<^verbatim>\<open>operator[]\<close> makes the inner map when it is missing\<close>
  "tls_set key v rt =
     (let t = g_current rt;
          inner = (case g_tls rt t of None \<Rightarrow> Map.empty | Some m \<Rightarrow> m)
      in rt\<lparr>g_tls := (g_tls rt)(t \<mapsto> inner(key \<mapsto> v))\<rparr>)"

definition tls_get :: "string \<Rightarrow> Runtime \<Rightarrow> int option" where
  "tls_get key rt =
     (case g_tls rt (g_current rt) of
        None \<Rightarrow> None
      | Some m \<Rightarrow> m key)"

definition platform_yield_to_scheduler :: "Runtime \<Rightarrow> fault + Runtime" where
  \<comment> \<open>\<^verbatim>\<open>swapcontext(&g_threads[g_current.load()].cx.ctx, &g_sched_ctx)\<close>: the caller's
      machine state is saved in its own context, and the scheduler goes on\<close>
  "platform_yield_to_scheduler rt =
     (case vec_at (g_threads rt) (g_current rt) of
        Inl e \<Rightarrow> Inl e
      | Inr th \<Rightarrow> Inr (rt\<lparr>g_threads := (g_threads rt)[nat (g_current rt) := th\<lparr>cx := Saved\<rparr>]\<rparr>))"

definition thread_sleep :: "int \<Rightarrow> int \<Rightarrow> Runtime \<Rightarrow> fault + Runtime" where
  \<comment> \<open>the first argument is the reading of \<^verbatim>\<open>now_ms()\<close>; the result is the runtime in
      which the scheduler goes on\<close>
  "thread_sleep now ms rt =
     (let t = g_current rt in
      case vec_at (g_threads rt) t of
        Inl e \<Rightarrow> Inl e
      | Inr th \<Rightarrow>
          (let th1 = th\<lparr>wake_time_ms := now + ms, state := SLEEPING\<rparr>;
               rt1 = log_event ''sleep'' t (to_string ms) (rt\<lparr>g_threads := (g_threads rt)[nat t := th1]\<rparr>)
           in case (if policy (g_sched rt1) = MLFQ
                    then promote_mlfq (g_sched rt1) (g_threads rt1) t
                    else Inr (g_threads rt1)) of
                Inl e \<Rightarrow> Inl e
              | Inr ths2 \<Rightarrow> platform_yield_to_scheduler (rt1\<lparr>g_threads := ths2\<rparr>)))"

definition thread_wait :: "string \<Rightarrow> Runtime \<Rightarrow> fault + Runtime" where
  \<comment> \<open>\<^verbatim>\<open>g_resources[resource].push(tid)\<close>: \<^verbatim>\<open>operator[]\<close> makes the queue when it is missing\<close>
  "thread_wait resource rt =
     (let t = g_current rt in
      case vec_at (g_threads rt) t of
        Inl e \<Rightarrow> Inl e
      | Inr th \<Rightarrow>
          (let waiters = (case g_resources rt resource of None \<Rightarrow> [] | Some ws \<Rightarrow> ws);
               rt1 = log_event ''wait'' t resource
                       (rt\<lparr>g_threads := (g_threads rt)[nat t := th\<lparr>state := BLOCKED\<rparr>],
                           g_resources := (g_resources rt)(resource \<mapsto> waiters @ [t])\<rparr>)
           in case (if policy (g_sched rt1) = MLFQ
                    then promote_mlfq (g_sched rt1) (g_threads rt1) t
                    else Inr (g_threads rt1)) of
                Inl e \<Rightarrow> Inl e
              | Inr ths2 \<Rightarrow> platform_yield_to_scheduler (rt1\<lparr>g_threads := ths2\<rparr>)))"

definition thread_signal :: "string \<Rightarrow> Runtime \<Rightarrow> fault + Runtime" where
  "thread_signal resource rt =
     (case g_resources rt resource of
        None \<Rightarrow> Inr rt
      | Some [] \<Rightarrow> Inr rt
      | Some (t # ws) \<Rightarrow>
          (let rt1 = rt\<lparr>g_resources := (g_resources rt)(resource \<mapsto> ws)\<rparr> in
           case vec_at (g_threads rt1) t of
             Inl e \<Rightarrow> Inl e
           | Inr th \<Rightarrow>
               if state th = BLOCKED then
                 (case enqueue ((g_threads rt1)[nat t := th\<lparr>state := READY\<rparr>]) t (g_sched rt1) of
                    Inl e \<Rightarrow> Inl e
                  | Inr (s', ths') \<Rightarrow>
                      Inr (log_event ''signal'' t resource (rt1\<lparr>g_sched := s', g_threads := ths'\<rparr>)))
               else Inr rt1))"

text \<open>
  \<^verbatim>\<open>thread_work\<close> up to the point where it returns or suspends. After a suspension the
  call returns \<^verbatim>\<open>th.quantum_budget\<close> as it is when the task runs again: that is
  \<open>thread_work_resumed\<close>, read in the runtime the task is resumed in.
\<close>

definition thread_work :: "int \<Rightarrow> Runtime \<Rightarrow> fault + int outcome" where
  "thread_work units rt =
     (let t = g_current rt in
      case vec_at (g_threads rt) t of
        Inl e \<Rightarrow> Inl e
      | Inr th \<Rightarrow>
          (case int_sub (quantum_budget th) (max 1 units) of
             Inl e \<Rightarrow> Inl e
           | Inr b \<Rightarrow>
               (let rt0 = rt\<lparr>g_threads := (g_threads rt)[nat t := th\<lparr>quantum_budget := b\<rparr>]\<rparr> in
                if b \<le> 0 then
                  (let rt1 = log_event ''qexpire'' t ''auto-yield'' rt0 in
                   case (if policy (g_sched rt1) = MLFQ
                         then demote_mlfq (g_sched rt1) (g_threads rt1) t
                         else Inr (g_threads rt1)) of
                     Inl e \<Rightarrow> Inl e
                   | Inr ths2 \<Rightarrow>
                       (case (if state (ths2 ! nat t) = RUNNING
                              then enqueue (ths2[nat t := (ths2 ! nat t)\<lparr>state := READY\<rparr>]) t (g_sched rt1)
                              else Inr (g_sched rt1, ths2)) of
                          Inl e \<Rightarrow> Inl e
                        | Inr (s3, ths3) \<Rightarrow>
                            (case platform_yield_to_scheduler (rt1\<lparr>g_sched := s3, g_threads := ths3\<rparr>) of
                               Inl e \<Rightarrow> Inl e
                             | Inr rt4 \<Rightarrow> Inr (Suspended rt4))))
                else Inr (Returned b rt0))))"

definition thread_work_resumed :: "int \<Rightarrow> Runtime \<Rightarrow> int" where
  \<comment> \<open>\<^verbatim>\<open>return th.quantum_budget\<close>, with \<^verbatim>\<open>th\<close> bound to \<^verbatim>\<open>g_threads[tid]\<close> at entry\<close>
  "thread_work_resumed t rt = quantum_budget (g_threads rt ! nat t)"

definition thread_yield :: "Runtime \<Rightarrow> fault + Runtime" where
  \<comment> \<open>the result is the runtime in which the scheduler goes on\<close>
  "thread_yield rt =
     (let t = g_current rt in
      case (if t \<ge> 0 then
              (case vec_at (g_threads rt) t of
                 Inl e \<Rightarrow> Inl e
               | Inr th \<Rightarrow>
                   if state th = RUNNING then
                     (case enqueue ((g_threads rt)[nat t := th\<lparr>state := READY\<rparr>]) t (g_sched rt) of
                        Inl e \<Rightarrow> Inl e
                      | Inr (s', ths') \<Rightarrow>
                          Inr (log_event ''yield'' t [] (rt\<lparr>g_sched := s', g_threads := ths'\<rparr>)))
                   else Inr rt)
            else Inr rt) of
        Inl e \<Rightarrow> Inl e
      | Inr rt1 \<Rightarrow> platform_yield_to_scheduler rt1)"

subsection \<open>Dispatch\<close>

definition context_trampoline :: "int \<Rightarrow> Runtime \<Rightarrow> fault + Runtime" where
  \<comment> \<open>\<^verbatim>\<open>context_trampoline\<close> up to the call of \<^verbatim>\<open>th.func()\<close>\<close>
  "context_trampoline t rt =
     (let rt1 = rt\<lparr>g_current := t\<rparr> in
      case vec_at (g_threads rt1) t of
        Inl e \<Rightarrow> Inl e
      | Inr th \<Rightarrow>
          (let th1 = th\<lparr>state := RUNNING\<rparr>;
               rt2 = log_event ''start'' t (name th1) (rt1\<lparr>g_threads := (g_threads rt1)[nat t := th1]\<rparr>)
           in if policy (g_sched rt2) = MLFQ then
                (case vec_at (quantum_by_level (g_sched rt2)) (mlfq_level th1) of
                   Inl e \<Rightarrow> Inl e
                 | Inr q \<Rightarrow> Inr (rt2\<lparr>g_threads := (g_threads rt2)[nat t := th1\<lparr>quantum_budget := q\<rparr>]\<rparr>))
              else Inr (rt2\<lparr>g_threads :=
                          (g_threads rt2)[nat t := th1\<lparr>quantum_budget := max 1 (quantum_budget th1)\<rparr>]\<rparr>)))"

definition ensure_context :: "int \<Rightarrow> Runtime \<Rightarrow> fault + Runtime" where
  "ensure_context t rt =
     (case vec_at (g_threads rt) t of
        Inl e \<Rightarrow> Inl e
      | Inr th \<Rightarrow>
          if state th = NEW then Inr (rt\<lparr>g_threads := (g_threads rt)[nat t := th\<lparr>cx := Made\<rparr>]\<rparr>)
          else Inr rt)"

text \<open>
  \<^verbatim>\<open>switch_to_thread\<close>. Its last statement, \<^verbatim>\<open>swapcontext(&g_sched_ctx, &th.cx.ctx)\<close>,
  hands control to what the task's context holds: the trampoline when \<^verbatim>\<open>makecontext\<close>
  built it, the inside of the API call that saved it, and nothing that can run when the
  context is still value-initialised.
\<close>

definition switch_to_thread :: "int \<Rightarrow> Runtime \<Rightarrow> fault + Runtime" where
  "switch_to_thread next_tid rt =
     (case ensure_context next_tid rt of
        Inl e \<Rightarrow> Inl e
      | Inr rt1 \<Rightarrow>
          (let rt2 = rt1\<lparr>g_current := next_tid\<rparr> in
           case vec_at (g_threads rt2) next_tid of
             Inl e \<Rightarrow> Inl e
           | Inr th \<Rightarrow>
               (let th1 = th\<lparr>state := RUNNING\<rparr> in
                case (if policy (g_sched rt2) = MLFQ
                      then (case vec_at (quantum_by_level (g_sched rt2)) (mlfq_level th1) of
                              Inl e \<Rightarrow> Inl e
                            | Inr q \<Rightarrow> Inr (th1\<lparr>quantum_budget := q\<rparr>))
                      else Inr th1) of
                  Inl e \<Rightarrow> Inl e
                | Inr th2 \<Rightarrow>
                    (let rt3 = log_event ''run'' next_tid (name th2)
                                 (rt2\<lparr>g_threads := (g_threads rt2)[nat next_tid := th2]\<rparr>)
                     in case cx th2 of
                          Zeroed \<Rightarrow> Inl (BadContext next_tid)
                        | Made \<Rightarrow> context_trampoline next_tid rt3
                        | Saved \<Rightarrow> Inr rt3))))"

subsection \<open>Scheduling loop\<close>

definition all_done :: "Runtime \<Rightarrow> bool" where
  "all_done rt = list_all (\<lambda>th. state th = FINISHED) (g_threads rt)"

text \<open>
  The two loops over \<^verbatim>\<open>g_threads\<close> visit the records by position; each reads the record
  as it is when the loop reaches it, and enqueues under the record's own \<^verbatim>\<open>tid\<close> field.
\<close>

fun admit_new :: "nat list \<Rightarrow> Runtime \<Rightarrow> fault + Runtime" where
  "admit_new [] rt = Inr rt"
| "admit_new (i # rest) rt =
     (let th = g_threads rt ! i in
      if state th = NEW then
        (case enqueue ((g_threads rt)[i := th\<lparr>state := READY\<rparr>]) (tid th) (g_sched rt) of
           Inl e \<Rightarrow> Inl e
         | Inr (s', ths') \<Rightarrow>
             admit_new rest (log_event ''ready'' (tid th) [] (rt\<lparr>g_sched := s', g_threads := ths'\<rparr>)))
      else admit_new rest rt)"

fun wake_loop :: "int \<Rightarrow> nat list \<Rightarrow> Runtime \<Rightarrow> fault + Runtime" where
  "wake_loop now [] rt = Inr rt"
| "wake_loop now (i # rest) rt =
     (let th = g_threads rt ! i in
      if state th = SLEEPING \<and> wake_time_ms th \<le> now then
        (case enqueue ((g_threads rt)[i := th\<lparr>state := READY\<rparr>]) (tid th) (g_sched rt) of
           Inl e \<Rightarrow> Inl e
         | Inr (s', ths') \<Rightarrow>
             wake_loop now rest (log_event ''wakeup'' (tid th) [] (rt\<lparr>g_sched := s', g_threads := ths'\<rparr>)))
      else wake_loop now rest rt)"

definition wake_sleepers :: "int \<Rightarrow> Runtime \<Rightarrow> fault + Runtime" where
  "wake_sleepers now rt = wake_loop now [0..<length (g_threads rt)] rt"

definition schedule_once :: "int \<Rightarrow> int \<Rightarrow> Runtime \<Rightarrow> fault + sched_step" where
  \<comment> \<open>the clock is read twice: by \<^verbatim>\<open>wake_sleepers\<close>, then by \<^verbatim>\<open>maybe_age\<close>\<close>
  "schedule_once now1 now2 rt =
     (case admit_new [0..<length (g_threads rt)] rt of
        Inl e \<Rightarrow> Inl e
      | Inr rt1 \<Rightarrow>
          (case wake_sleepers now1 rt1 of
             Inl e \<Rightarrow> Inl e
           | Inr rt2 \<Rightarrow>
               (case maybe_age now2 rt2 of
                  Inl e \<Rightarrow> Inl e
                | Inr rt3 \<Rightarrow>
                    if sched_empty (g_sched rt3) then Inr (Idle rt3)
                    else (case pop (g_sched rt3) of
                            Inl e \<Rightarrow> Inl e
                          | Inr (next, s') \<Rightarrow>
                              if next \<ge> 0 then
                                (case switch_to_thread next (rt3\<lparr>g_sched := s'\<rparr>) of
                                   Inl e \<Rightarrow> Inl e
                                 | Inr rt4 \<Rightarrow> Inr (Dispatched next rt4))
                              else Inr (Idle (rt3\<lparr>g_sched := s'\<rparr>))))))"

definition policy_name :: "SchedPolicy \<Rightarrow> string" where
  "policy_name p = (if p = RoundRobin then ''rr'' else if p = Priority then ''prio'' else ''mlfq'')"

definition thread_run_start :: "string option \<Rightarrow> Runtime \<Rightarrow> Runtime" where
  \<comment> \<open>\<^verbatim>\<open>thread_run\<close> up to its loop: the policy is fixed from the environment, \<^verbatim>\<open>boot\<close> is logged\<close>
  "thread_run_start env rt =
     (let rt1 = rt\<lparr>g_sched := set_policy_from_env env (g_sched rt)\<rparr>
      in log_event ''boot'' (- 1) (policy_name (policy (g_sched rt1))) rt1)"

text \<open>The state of the globals when \<^verbatim>\<open>main\<close> starts; \<open>t0\<close> is the clock then.\<close>

definition boot :: "int \<Rightarrow> Runtime" where
  "boot t0 =
     \<lparr>g_sched = \<lparr>policy = RoundRobin, rrq = [], mlfq = [], levels = 3,
                 quantum_by_level = [8, 4, 2], enable_aging = True,
                 aging_interval_ms = 500, last_age_ms = t0\<rparr>,
      g_threads = [], g_current = - 1, g_next_tid = 0,
      g_resources = Map.empty, g_tls = Map.empty, g_log = []\<rparr>"

text \<open>
  A run of \<^verbatim>\<open>tls_set\<close> calls, each made while the given task is the current one; it is
  used to speak about what lies between a \<^verbatim>\<open>tls_set\<close> and a later \<^verbatim>\<open>tls_get\<close>.
\<close>

fun tls_sets :: "(int \<times> string \<times> int) list \<Rightarrow> Runtime \<Rightarrow> Runtime" where
  "tls_sets [] rt = rt"
| "tls_sets ((t, k, v) # ops) rt = tls_sets ops (tls_set k v (rt\<lparr>g_current := t\<rparr>))"

subsection \<open>Notions used by the properties\<close>

definition valid_tid :: "Thread list \<Rightarrow> int \<Rightarrow> bool" where
  "valid_tid ths t = (0 \<le> t \<and> t < int (length ths))"

definition prio_of :: "Thread list \<Rightarrow> int \<Rightarrow> int" where
  \<comment> \<open>\<^verbatim>\<open>ths[tid].base_priority\<close>\<close>
  "prio_of ths t = base_priority (ths ! nat t)"

definition outranked :: "Thread list \<Rightarrow> int \<Rightarrow> int \<Rightarrow> bool" where
  \<comment> \<open>the test that ends the scan of \<^verbatim>\<open>enqueue_prio\<close>: the incoming task \<open>t\<close> has a
      strictly higher \<^verbatim>\<open>base_priority\<close> than the element \<open>x\<close>\<close>
  "outranked ths t x = (prio_of ths t > prio_of ths x)"

text \<open>A run of \<^verbatim>\<open>enqueue_prio\<close> calls, in the order given.\<close>

fun enqueue_prio_seq :: "Thread list \<Rightarrow> int list \<Rightarrow> Scheduler \<Rightarrow> fault + Scheduler" where
  "enqueue_prio_seq ths [] s = Inr s"
| "enqueue_prio_seq ths (t # ts) s =
     (case enqueue_prio ths t s of
        Inl e \<Rightarrow> Inl e
      | Inr s' \<Rightarrow> enqueue_prio_seq ths ts s')"

text \<open>
  A runtime with a single task, tid 0, which is the current one: the policy, the task's
  state, budget and level, the two ready structures and the trace are given; the rest of
  the scheduler's configuration is the default, with the three level queues in place.
\<close>

definition one_task ::
  "SchedPolicy \<Rightarrow> ThreadState \<Rightarrow> int \<Rightarrow> int \<Rightarrow> int list \<Rightarrow> int list list \<Rightarrow> event list \<Rightarrow> Runtime" where
  "one_task p st budget lvl q qs trace =
     \<lparr>g_sched = \<lparr>policy = p, rrq = q, mlfq = qs, levels = 3,
                 quantum_by_level = [8, 4, 2], enable_aging = True,
                 aging_interval_ms = 500, last_age_ms = 0\<rparr>,
      g_threads = [\<lparr>tid = 0, base_priority = 1, dyn_priority = 1, state = st,
                    name = ''A'', cx = Saved, wake_time_ms = 0, quantum_budget = budget,
                    mlfq_level = lvl\<rparr>],
      g_current = 0, g_next_tid = 1,
      g_resources = Map.empty, g_tls = Map.empty, g_log = trace\<rparr>"

text \<open>Three task records with the priorities 5, 9 and 5.\<close>

definition three_tasks :: "Thread list" where
  "three_tasks =
     map (\<lambda>(i, p). \<lparr>tid = i, base_priority = p, dyn_priority = p, state = READY,
                      name = ''task'', cx = Saved, wake_time_ms = 0, quantum_budget = 8,
                      mlfq_level = 0\<rparr>)
       [(0, 5), (1, 9), (2, 5)]"

section \<open>Properties\<close>

subsection \<open>Policy and environment\<close>

text \<open>
  What \<^verbatim>\<open>set_policy_from_env\<close> computes at the start of \<^verbatim>\<open>thread_run\<close>: its first test
  is false for each of the three enumerators, and a value of \<^verbatim>\<open>SCHED\<close> is applied
  without looking at the policy held.
\<close>

lemma thread_run_start_policy:
  "policy (g_sched (thread_run_start env rt)) =
     (case env of
        None \<Rightarrow> policy (g_sched rt)
      | Some v \<Rightarrow>
          if v = ''prio'' \<or> v = ''priority'' then Priority
          else if v = ''mlfq'' then MLFQ
          else RoundRobin)"
  by (cases "policy (g_sched rt)")
     (simp_all add: thread_run_start_def set_policy_from_env_def log_event_def Let_def
        split: option.split)

text \<open>
  C1 at its failing input. \<^verbatim>\<open>set_policy(SchedPolicy::MLFQ)\<close> is called, which the header
  documents as overriding the environment variable, and \<^verbatim>\<open>thread_run\<close> starts with
  \<^verbatim>\<open>SCHED=rr\<close> or \<^verbatim>\<open>SCHED=prio\<close>: the policy does not stay MLFQ, it becomes RoundRobin
  in the first case and Priority in the second. With \<^verbatim>\<open>SCHED\<close> unset it stays.
\<close>

theorem env_overrides_explicit_policy:
  "policy (g_sched (set_policy MLFQ (boot 0))) = MLFQ
   \<and> policy (g_sched (thread_run_start (Some ''rr'') (set_policy MLFQ (boot 0)))) = RoundRobin
   \<and> policy (g_sched (thread_run_start (Some ''prio'') (set_policy MLFQ (boot 0)))) = Priority
   \<and> policy (g_sched (thread_run_start None (set_policy MLFQ (boot 0)))) = MLFQ"
  by (simp add: thread_run_start_def set_policy_def boot_def set_policy_from_env_def log_event_def)

subsection \<open>Task-local storage\<close>

lemma tls_set_view:
  "tls_get k ((tls_set k' v (rt\<lparr>g_current := t'\<rparr>))\<lparr>g_current := t\<rparr>) =
     (if t' = t \<and> k' = k then Some v else tls_get k (rt\<lparr>g_current := t\<rparr>))"
  by (auto simp: tls_get_def tls_set_def Let_def split: option.splits)

lemma tls_sets_view:
  "tls_get k ((tls_sets ops rt)\<lparr>g_current := t\<rparr>) =
     (case map_of (rev (map (\<lambda>(t', k', v). ((t', k'), v)) ops)) (t, k) of
        Some v \<Rightarrow> Some v
      | None \<Rightarrow> tls_get k (rt\<lparr>g_current := t\<rparr>))"
proof (induction ops arbitrary: rt)
  case Nil
  show ?case by simp
next
  case (Cons op ops)
  obtain t' k' v' where op: "op = (t', k', v')" by (cases op)
  show ?case
    unfolding op
    by (simp add: Cons.IH tls_set_view map_add_def split: option.splits)
qed

lemma no_set_lookup:
  "(\<forall>op \<in> set ops. \<not> (fst op = t \<and> fst (snd op) = k)) \<Longrightarrow>
   map_of (rev (map (\<lambda>(t', k', v). ((t', k'), v)) ops)) (t, k) = None"
  by (induction ops) (auto simp: map_add_def split: option.splits)

text \<open>
  C10. For the running task, \<^verbatim>\<open>tls_get\<close> after \<^verbatim>\<open>tls_set\<close> on the same key returns the
  value set, also after any run of \<^verbatim>\<open>tls_set\<close> calls none of which is made by the same
  task on the same key. From the start of the program, a key that a task never set reads as
  none for that task. A \<^verbatim>\<open>tls_set\<close> made by one task changes no value read by another.
\<close>

theorem tls_round_trip:
  "tls_get k (tls_set k v rt) = Some v
   \<and> ((\<forall>op \<in> set ops. \<not> (fst op = g_current rt \<and> fst (snd op) = k)) \<longrightarrow>
        tls_get k ((tls_sets ops (tls_set k v rt))\<lparr>g_current := g_current rt\<rparr>) = Some v)
   \<and> ((\<forall>op \<in> set ops. \<not> (fst op = t \<and> fst (snd op) = k)) \<longrightarrow>
        tls_get k ((tls_sets ops (boot t0))\<lparr>g_current := t\<rparr>) = None)
   \<and> (t \<noteq> g_current rt \<longrightarrow>
        tls_get k' ((tls_set k v rt)\<lparr>g_current := t\<rparr>) = tls_get k' (rt\<lparr>g_current := t\<rparr>))"
proof (intro conjI impI)
  have self: "rt\<lparr>g_current := g_current rt\<rparr> = rt" by simp
  show a: "tls_get k (tls_set k v rt) = Some v"
    by (simp add: tls_get_def tls_set_def Let_def)
  show "tls_get k ((tls_sets ops (tls_set k v rt))\<lparr>g_current := g_current rt\<rparr>) = Some v"
    if "\<forall>op \<in> set ops. \<not> (fst op = g_current rt \<and> fst (snd op) = k)"
    using no_set_lookup [OF that] a
    by (simp add: tls_sets_view) (simp add: tls_get_def tls_set_def Let_def)
  show "tls_get k ((tls_sets ops (boot t0))\<lparr>g_current := t\<rparr>) = None"
    if "\<forall>op \<in> set ops. \<not> (fst op = t \<and> fst (snd op) = k)"
    using no_set_lookup [OF that]
    by (simp add: tls_sets_view) (simp add: tls_get_def boot_def)
  show "tls_get k' ((tls_set k v rt)\<lparr>g_current := t\<rparr>) = tls_get k' (rt\<lparr>g_current := t\<rparr>)"
    if "t \<noteq> g_current rt"
    using that by (auto simp: tls_get_def tls_set_def Let_def split: option.splits)
qed

theorem tls_round_trip_witness:
  "tls_get ''k'' (tls_set ''k'' 5 ((boot 0)\<lparr>g_current := 0\<rparr>)) = Some 5
   \<and> tls_get ''k'' ((tls_sets [(1, ''k'', 7), (0, ''j'', 9)] (tls_set ''k'' 5 ((boot 0)\<lparr>g_current := 0\<rparr>)))\<lparr>g_current := 0\<rparr>) = Some 5
   \<and> tls_get ''k'' ((tls_sets [(1, ''k'', 7), (0, ''j'', 9)] (boot 0))\<lparr>g_current := 0\<rparr>) = None
   \<and> tls_get ''k'' ((tls_set ''k'' 5 ((boot 0)\<lparr>g_current := 0\<rparr>))\<lparr>g_current := 1\<rparr>) = tls_get ''k'' ((boot 0)\<lparr>g_current := 1\<rparr>)"
  using tls_round_trip [of "''k''" 5 "(boot 0)\<lparr>g_current := 0\<rparr>" "[(1, ''k'', 7), (0, ''j'', 9)]" 0 0 "''k''"]
  tls_round_trip [of "''k''" 5 "(boot 0)\<lparr>g_current := 0\<rparr>" "[(1, ''k'', 7), (0, ''j'', 9)]" 1 0 "''k''"]
  by simp

subsection \<open>Priority queue\<close>

lemma vec_at_valid: "valid_tid ths t \<Longrightarrow> vec_at ths t = Inr (ths ! nat t)"
  by (simp add: vec_at_def valid_tid_def)

lemma below_after_scan:
  "sorted_wrt (\<lambda>a b. prio_of ths a \<ge> prio_of ths b) q \<Longrightarrow>
   \<forall>z \<in> set (dropWhile (\<lambda>x. \<not> outranked ths t x) q). prio_of ths z < prio_of ths t"
proof (induction q)
  case Nil
  show ?case by simp
next
  case (Cons x q)
  show ?case
  proof (cases "outranked ths t x")
    case True
    then have "\<forall>z \<in> set (x # q). prio_of ths z < prio_of ths t"
      using Cons.prems by (fastforce simp: outranked_def)
    then show ?thesis using True by simp
  next
    case False
    then show ?thesis using Cons by simp
  qed
qed


lemma enqueue_prio_scan_eq:
  assumes "valid_tid ths t" and "\<forall>x \<in> set q. valid_tid ths x"
  shows "enqueue_prio_scan ths t q =
     Inr (takeWhile (\<lambda>x. \<not> outranked ths t x) q @ t # dropWhile (\<lambda>x. \<not> outranked ths t x) q)"
  using assms(2)
proof (induction q)
  case Nil
  show ?case by simp
next
  case (Cons x q)
  have t: "vec_at ths t = Inr (ths ! nat t)"
    by (rule vec_at_valid [OF assms(1)])
  have x: "vec_at ths x = Inr (ths ! nat x)"
    using Cons.prems by (simp add: vec_at_valid)
  have rest: "enqueue_prio_scan ths t q =
     Inr (takeWhile (\<lambda>x. \<not> outranked ths t x) q @ t # dropWhile (\<lambda>x. \<not> outranked ths t x) q)"
    using Cons by simp
  show ?case
  proof (cases "outranked ths t x")
    case True
    then show ?thesis
      by (simp add: t x outranked_def prio_of_def)
  next
    case False
    then show ?thesis
      by (simp add: t x rest) (simp add: outranked_def prio_of_def)
  qed
qed

lemma insert_keeps_sorted:
  assumes "sorted_wrt (\<lambda>a b. prio_of ths a \<ge> prio_of ths b) q"
  shows "sorted_wrt (\<lambda>a b. prio_of ths a \<ge> prio_of ths b)
           (takeWhile (\<lambda>x. \<not> outranked ths t x) q @ t # dropWhile (\<lambda>x. \<not> outranked ths t x) q)"
proof -
  let ?P = "\<lambda>x. \<not> outranked ths t x"
  let ?R = "\<lambda>a b. prio_of ths a \<ge> prio_of ths b"
  have whole: "sorted_wrt ?R (takeWhile ?P q @ dropWhile ?P q)"
    using assms by simp
  have before: "\<forall>x \<in> set (takeWhile ?P q). prio_of ths t \<le> prio_of ths x"
    by (auto dest: set_takeWhileD simp: outranked_def)
  have behind: "\<forall>z \<in> set (dropWhile ?P q). prio_of ths z < prio_of ths t"
    by (rule below_after_scan [OF assms])
  show ?thesis
    using whole before behind
    unfolding sorted_wrt_append
    by (auto simp: less_imp_le)
qed

lemma insert_fifo:
  assumes "sorted_wrt (\<lambda>a b. prio_of ths a \<ge> prio_of ths b) q"
  shows "filter (\<lambda>x. prio_of ths x = p)
           (takeWhile (\<lambda>x. \<not> outranked ths t x) q @ t # dropWhile (\<lambda>x. \<not> outranked ths t x) q)
         = filter (\<lambda>x. prio_of ths x = p) q @ (if prio_of ths t = p then [t] else [])"
proof -
  let ?P = "\<lambda>x. \<not> outranked ths t x"
  let ?F = "filter (\<lambda>x. prio_of ths x = p)"
  have q: "?F q = ?F (takeWhile ?P q) @ ?F (dropWhile ?P q)"
    by (simp flip: filter_append)
  show ?thesis
  proof (cases "prio_of ths t = p")
    case True
    have "\<forall>z \<in> set (dropWhile ?P q). prio_of ths z \<noteq> p"
      using below_after_scan [OF assms, of t] True by auto
    then have "?F (dropWhile ?P q) = []"
      by (simp add: filter_empty_conv)
    then show ?thesis using True q by simp
  next
    case False
    then show ?thesis using q by simp
  qed
qed

lemma enqueue_prio_seq_fifo:
  assumes "\<forall>x \<in> set ts. valid_tid ths x" "\<forall>x \<in> set (rrq s). valid_tid ths x"
    and "sorted_wrt (\<lambda>a b. prio_of ths a \<ge> prio_of ths b) (rrq s)"
  shows "\<exists>s'. enqueue_prio_seq ths ts s = Inr s'
           \<and> sorted_wrt (\<lambda>a b. prio_of ths a \<ge> prio_of ths b) (rrq s')
           \<and> (\<forall>p. filter (\<lambda>x. prio_of ths x = p) (rrq s')
                  = filter (\<lambda>x. prio_of ths x = p) (rrq s) @ filter (\<lambda>x. prio_of ths x = p) ts)"
  using assms
proof (induction ts arbitrary: s)
  case Nil
  then show ?case by simp
next
  case (Cons t ts)
  let ?P = "\<lambda>x. \<not> outranked ths t x"
  let ?q = "takeWhile ?P (rrq s) @ t # dropWhile ?P (rrq s)"
  have tv: "valid_tid ths t" and qv: "\<forall>x \<in> set (rrq s). valid_tid ths x"
    using Cons.prems by simp_all
  have step: "enqueue_prio ths t s = Inr (s\<lparr>rrq := ?q\<rparr>)"
    by (simp add: enqueue_prio_def enqueue_prio_scan_eq [OF tv qv])
  have valid: "\<forall>x \<in> set (rrq (s\<lparr>rrq := ?q\<rparr>)). valid_tid ths x"
    using tv qv by (auto dest: set_takeWhileD set_dropWhileD)
  have sorted: "sorted_wrt (\<lambda>a b. prio_of ths a \<ge> prio_of ths b) (rrq (s\<lparr>rrq := ?q\<rparr>))"
    using insert_keeps_sorted [OF Cons.prems(3)] by simp
  have tsv: "\<forall>x \<in> set ts. valid_tid ths x"
    using Cons.prems(1) by simp
  from Cons.IH [OF tsv valid sorted]
  obtain s' where s': "enqueue_prio_seq ths ts (s\<lparr>rrq := ?q\<rparr>) = Inr s'"
      "sorted_wrt (\<lambda>a b. prio_of ths a \<ge> prio_of ths b) (rrq s')"
      "\<forall>p. filter (\<lambda>x. prio_of ths x = p) (rrq s')
            = filter (\<lambda>x. prio_of ths x = p) ?q @ filter (\<lambda>x. prio_of ths x = p) ts"
    by (elim exE conjE) simp
  have fifo: "filter (\<lambda>x. prio_of ths x = p) (rrq s')
                = filter (\<lambda>x. prio_of ths x = p) (rrq s) @ filter (\<lambda>x. prio_of ths x = p) (t # ts)" for p
  proof -
    have "filter (\<lambda>x. prio_of ths x = p) (rrq s')
            = filter (\<lambda>x. prio_of ths x = p) ?q @ filter (\<lambda>x. prio_of ths x = p) ts"
      using s'(3) by blast
    also have "filter (\<lambda>x. prio_of ths x = p) ?q
            = filter (\<lambda>x. prio_of ths x = p) (rrq s) @ (if prio_of ths t = p then [t] else [])"
      by (rule insert_fifo [OF Cons.prems(3)])
    finally show ?thesis by simp
  qed
  have run: "enqueue_prio_seq ths (t # ts) s = Inr s'"
    by (simp add: step s'(1))
  show ?case
    using run s'(2) fifo by blast
qed

text \<open>
  C5. Under the Priority policy, with the task ids at hand in range of the task table,
  \<^verbatim>\<open>enqueue_prio\<close> puts the incoming tid before the first element of the queue that has
  a strictly lower \<^verbatim>\<open>base_priority\<close>, and at the tail when there is none. The queue
  stays ordered by non-increasing priority, an enqueue adds the task behind every queued
  task of its own priority, and so after any run of enqueues into an empty queue the tasks
  of each priority stand in the order in which they were enqueued.
\<close>

theorem enqueue_prio_order:
  assumes "valid_tid ths t" and "\<forall>x \<in> set (rrq s). valid_tid ths x"
    and "\<forall>x \<in> set ts. valid_tid ths x"
  shows "enqueue_prio ths t s =
           Inr (s\<lparr>rrq := takeWhile (\<lambda>x. \<not> outranked ths t x) (rrq s) @ t #
                           dropWhile (\<lambda>x. \<not> outranked ths t x) (rrq s)\<rparr>)
         \<and> (sorted_wrt (\<lambda>a b. prio_of ths a \<ge> prio_of ths b) (rrq s) \<longrightarrow>
              (\<exists>s'. enqueue_prio ths t s = Inr s'
                 \<and> sorted_wrt (\<lambda>a b. prio_of ths a \<ge> prio_of ths b) (rrq s')
                 \<and> (\<forall>p. filter (\<lambda>x. prio_of ths x = p) (rrq s')
                        = filter (\<lambda>x. prio_of ths x = p) (rrq s) @
                          (if prio_of ths t = p then [t] else []))))
         \<and> (\<exists>s'. enqueue_prio_seq ths ts (s\<lparr>rrq := []\<rparr>) = Inr s'
                \<and> (\<forall>p. filter (\<lambda>x. prio_of ths x = p) (rrq s') = filter (\<lambda>x. prio_of ths x = p) ts))"
proof (intro conjI impI)
  show step: "enqueue_prio ths t s =
           Inr (s\<lparr>rrq := takeWhile (\<lambda>x. \<not> outranked ths t x) (rrq s) @ t #
                           dropWhile (\<lambda>x. \<not> outranked ths t x) (rrq s)\<rparr>)"
    by (simp add: enqueue_prio_def enqueue_prio_scan_eq [OF assms(1,2)])
  show "\<exists>s'. enqueue_prio ths t s = Inr s'
                 \<and> sorted_wrt (\<lambda>a b. prio_of ths a \<ge> prio_of ths b) (rrq s')
                 \<and> (\<forall>p. filter (\<lambda>x. prio_of ths x = p) (rrq s')
                        = filter (\<lambda>x. prio_of ths x = p) (rrq s) @
                          (if prio_of ths t = p then [t] else []))"
    if ordered: "sorted_wrt (\<lambda>a b. prio_of ths a \<ge> prio_of ths b) (rrq s)"
    using step insert_keeps_sorted [OF ordered, of t] insert_fifo [OF ordered, of _ t]
    by simp
  show "\<exists>s'. enqueue_prio_seq ths ts (s\<lparr>rrq := []\<rparr>) = Inr s'
                \<and> (\<forall>p. filter (\<lambda>x. prio_of ths x = p) (rrq s') = filter (\<lambda>x. prio_of ths x = p) ts)"
    using enqueue_prio_seq_fifo [of ts ths "s\<lparr>rrq := []\<rparr>"] assms(3) by auto
qed

theorem enqueue_prio_order_witness:
  "valid_tid three_tasks 2 \<and> valid_tid three_tasks 1 \<and> valid_tid three_tasks 0
   \<and> enqueue_prio three_tasks 2 ((g_sched (boot 0))\<lparr>policy := Priority, rrq := [1, 0]\<rparr>)
       = Inr ((g_sched (boot 0))\<lparr>policy := Priority, rrq := [1, 0, 2]\<rparr>)"
proof -
  have v: "valid_tid three_tasks 2" "valid_tid three_tasks 1" "valid_tid three_tasks 0"
    by (simp_all add: valid_tid_def three_tasks_def)
  have q: "\<forall>x \<in> set (rrq ((g_sched (boot 0))\<lparr>policy := Priority, rrq := [1, 0]\<rparr>)). valid_tid three_tasks x"
    using v by simp
  have ts: "\<forall>x \<in> set [0, 1, 2]. valid_tid three_tasks x"
    using v by simp
  have r: "\<not> outranked three_tasks 2 1" "\<not> outranked three_tasks 2 0"
    by (simp_all add: outranked_def prio_of_def three_tasks_def)
  show ?thesis
    using enqueue_prio_order [OF v(1) q ts] v r by simp
qed

subsection \<open>Work and the quantum\<close>

lemmas eval_defs = one_task_def thread_work_def vec_at_def int_sub_def demote_mlfq_def
  enqueue_def enqueue_rr_def enqueue_mlfq_def init_mlfq_if_needed_def clamp_def
  platform_yield_to_scheduler_def log_event_def schedule_once_def wake_sleepers_def
  maybe_age_def sched_empty_def pop_def switch_to_thread_def ensure_context_def
  thread_work_resumed_def Let_def eval_nat_numeral

lemma vec_at_Inr: "vec_at xs i = Inr x \<Longrightarrow> 0 \<le> i \<and> i < int (length xs) \<and> x = xs ! nat i"
  by (auto simp: vec_at_def split: if_splits)

lemma vec_at_in_range: "0 \<le> i \<Longrightarrow> i < int (length xs) \<Longrightarrow> vec_at xs i = Inr (xs ! nat i)"
  by (simp add: vec_at_def)

lemma thread_work_returns:
  assumes cur: "vec_at (g_threads rt) (g_current rt) = Inr th"
    and pos: "0 < quantum_budget th - max 1 units"
    and rng: "quantum_budget th - max 1 units < 2 ^ 31"
  shows "thread_work units rt =
           Inr (Returned (quantum_budget th - max 1 units)
                  (rt\<lparr>g_threads := (g_threads rt)[nat (g_current rt) :=
                                      th\<lparr>quantum_budget := quantum_budget th - max 1 units\<rparr>]\<rparr>))"
proof -
  define b where "b = quantum_budget th - max 1 units"
  have "- (2 ^ 31) \<le> (0 :: int)" by simp
  then have "- (2 ^ 31) \<le> b"
    using pos unfolding b_def by linarith
  then have sub: "int_sub (quantum_budget th) (max 1 units) = Inr b"
    using rng unfolding b_def by (simp add: int_sub_def)
  have above: "\<not> b \<le> 0"
    using pos unfolding b_def by linarith
  have "thread_work units rt =
          Inr (Returned b (rt\<lparr>g_threads := (g_threads rt)[nat (g_current rt) :=
                                             th\<lparr>quantum_budget := b\<rparr>]\<rparr>))"
    by (simp add: thread_work_def cur sub Let_def above)
  then show ?thesis unfolding b_def .
qed

text \<open>What \<^verbatim>\<open>thread_work\<close> gives when it returns at once.\<close>

lemma thread_work_Returned:
  assumes cur: "vec_at (g_threads rt) (g_current rt) = Inr th"
    and ret: "thread_work units rt = Inr (Returned v rt')"
  shows "v = quantum_budget th - max 1 units \<and> 0 < v"
proof -
  from ret obtain b where sub: "int_sub (quantum_budget th) (max 1 units) = Inr b"
    by (auto simp: thread_work_def cur Let_def split: sum.splits)
  then have b: "b = quantum_budget th - max 1 units"
    by (auto simp: int_sub_def split: if_splits)
  have "0 < b \<and> v = b"
    using ret
    by (cases "b \<le> 0") (auto simp: thread_work_def cur sub Let_def split: sum.splits)
  then show ?thesis using b by simp
qed


lemma init_mlfq_if_needed_fields:
  "policy (init_mlfq_if_needed s) = policy s"
  "levels (init_mlfq_if_needed s) = levels s"
  "rrq (init_mlfq_if_needed s) = rrq s"
  by (simp_all add: init_mlfq_if_needed_def Let_def)

lemma init_mlfq_if_needed_sizes:
  assumes "0 \<le> levels s"
  shows "int (length (mlfq (init_mlfq_if_needed s))) = levels s"
    and "int (length (quantum_by_level (init_mlfq_if_needed s))) = levels s"
  using assms by (auto simp: init_mlfq_if_needed_def Let_def)

lemma init_mlfq_if_needed_keeps_quanta:
  "int (length (quantum_by_level s)) = levels s \<Longrightarrow>
   quantum_by_level (init_mlfq_if_needed s) = quantum_by_level s"
  by (simp add: init_mlfq_if_needed_def Let_def)

lemma init_mlfq_if_needed_keeps_queues:
  "int (length (mlfq s)) = levels s \<Longrightarrow> mlfq (init_mlfq_if_needed s) = mlfq s"
  by (simp add: init_mlfq_if_needed_def Let_def)

lemma clamp_range: "lo \<le> hi \<Longrightarrow> lo \<le> clamp v lo hi \<and> clamp v lo hi \<le> hi"
  by (simp add: clamp_def)

lemma clamp_inside: "lo \<le> v \<Longrightarrow> v \<le> hi \<Longrightarrow> clamp v lo hi = v"
  by (simp add: clamp_def)

lemma demote_mlfq_MLFQ:
  assumes "policy s = MLFQ" and "vec_at ths t = Inr th"
    and "lvl = min (mlfq_level th + 1) (levels s - 1)"
    and "0 \<le> lvl" and "lvl < int (length (quantum_by_level s))"
  shows "demote_mlfq s ths t =
           Inr (ths[nat t := th\<lparr>mlfq_level := lvl, quantum_budget := quantum_by_level s ! nat lvl\<rparr>])"
  using assms by (simp add: demote_mlfq_def Let_def vec_at_def)

lemma enqueue_mlfq_level:
  assumes lv: "1 \<le> levels s" and th: "vec_at ths t = Inr th"
  shows "\<exists>s'. enqueue_mlfq ths t s =
                 Inr (s', ths[nat t := th\<lparr>mlfq_level := clamp (mlfq_level th) 0 (levels s - 1),
                                          quantum_budget :=
                                            quantum_by_level (init_mlfq_if_needed s) !
                                              nat (clamp (mlfq_level th) 0 (levels s - 1))\<rparr>])
               \<and> policy s' = policy s \<and> levels s' = levels s"
proof -
  let ?s = "init_mlfq_if_needed s"
  let ?l = "clamp (mlfq_level th) 0 (levels s - 1)"
  have r: "0 \<le> ?l \<and> ?l \<le> levels s - 1"
    using lv by (intro clamp_range) simp
  have sz: "int (length (mlfq ?s)) = levels s" "int (length (quantum_by_level ?s)) = levels s"
    using lv by (simp_all add: init_mlfq_if_needed_sizes)
  have q: "vec_at (quantum_by_level ?s) ?l = Inr (quantum_by_level ?s ! nat ?l)"
    using r sz by (intro vec_at_in_range) simp_all
  have m: "vec_at (mlfq ?s) ?l = Inr (mlfq ?s ! nat ?l)"
    using r sz by (intro vec_at_in_range) simp_all
  show ?thesis
    by (simp add: enqueue_mlfq_def Let_def th q m init_mlfq_if_needed_fields)
qed


text \<open>
  The branch of \<^verbatim>\<open>thread_work\<close> taken when the budget is used up, given what its three
  steps (demotion, requeue, yield) come to.
\<close>

lemma thread_work_crossing:
  assumes cur: "vec_at (g_threads rt) (g_current rt) = Inr th"
    and sub: "int_sub (quantum_budget th) (max 1 units) = Inr b"
    and cross: "b \<le> 0"
    and dem: "(if policy (g_sched rt) = MLFQ
               then demote_mlfq (g_sched rt)
                      ((g_threads rt)[nat (g_current rt) := th\<lparr>quantum_budget := b\<rparr>]) (g_current rt)
               else Inr ((g_threads rt)[nat (g_current rt) := th\<lparr>quantum_budget := b\<rparr>])) = Inr ths2"
    and enq: "(if state (ths2 ! nat (g_current rt)) = RUNNING
               then enqueue (ths2[nat (g_current rt) := (ths2 ! nat (g_current rt))\<lparr>state := READY\<rparr>])
                      (g_current rt) (g_sched rt)
               else Inr (g_sched rt, ths2)) = Inr (s3, ths3)"
    and at3: "vec_at ths3 (g_current rt) = Inr th3"
  shows "thread_work units rt =
           Inr (Suspended
                  (rt\<lparr>g_threads := ths3[nat (g_current rt) := th3\<lparr>cx := Saved\<rparr>],
                      g_log := g_log rt @ [(''qexpire'', g_current rt, ''auto-yield'')],
                      g_sched := s3\<rparr>))"
  by (simp add: thread_work_def cur sub cross Let_def log_event_def dem enq
        platform_yield_to_scheduler_def at3
      split del: if_split cong: if_cong)


lemma thread_work_Suspended:
  assumes cur: "vec_at (g_threads rt) (g_current rt) = Inr th"
    and susp: "thread_work units rt = Inr (Suspended rt1)"
  shows "\<exists>b ths2 s3 ths3 th3.
           int_sub (quantum_budget th) (max 1 units) = Inr b \<and> b \<le> 0
         \<and> (if policy (g_sched rt) = MLFQ
               then demote_mlfq (g_sched rt)
                      ((g_threads rt)[nat (g_current rt) := th\<lparr>quantum_budget := b\<rparr>]) (g_current rt)
               else Inr ((g_threads rt)[nat (g_current rt) := th\<lparr>quantum_budget := b\<rparr>])) = Inr ths2
         \<and> (if state (ths2 ! nat (g_current rt)) = RUNNING
               then enqueue (ths2[nat (g_current rt) := (ths2 ! nat (g_current rt))\<lparr>state := READY\<rparr>])
                      (g_current rt) (g_sched rt)
               else Inr (g_sched rt, ths2)) = Inr (s3, ths3)
         \<and> vec_at ths3 (g_current rt) = Inr th3
         \<and> rt1 = rt\<lparr>g_threads := ths3[nat (g_current rt) := th3\<lparr>cx := Saved\<rparr>],
                     g_log := g_log rt @ [(''qexpire'', g_current rt, ''auto-yield'')],
                     g_sched := s3\<rparr>"
proof -
  from susp obtain b where sub: "int_sub (quantum_budget th) (max 1 units) = Inr b"
    by (cases "int_sub (quantum_budget th) (max 1 units)") (simp_all add: thread_work_def cur Let_def)
  have cross: "b \<le> 0"
    using susp by (cases "b \<le> 0") (simp_all add: thread_work_def cur sub Let_def)
  let ?ths1 = "(g_threads rt)[nat (g_current rt) := th\<lparr>quantum_budget := b\<rparr>]"
  let ?dem = "if policy (g_sched rt) = MLFQ then demote_mlfq (g_sched rt) ?ths1 (g_current rt)
              else Inr ?ths1"
  from susp obtain ths2 where dem: "?dem = Inr ths2"
    by (cases ?dem)
       (simp_all add: thread_work_def cur sub cross Let_def log_event_def
          split del: if_split cong: if_cong)
  let ?enq = "if state (ths2 ! nat (g_current rt)) = RUNNING
               then enqueue (ths2[nat (g_current rt) := (ths2 ! nat (g_current rt))\<lparr>state := READY\<rparr>])
                      (g_current rt) (g_sched rt)
               else Inr (g_sched rt, ths2)"
  from susp obtain s3 ths3 where enq: "?enq = Inr (s3, ths3)"
    by (cases ?enq)
       (auto simp add: thread_work_def cur sub cross Let_def log_event_def dem
          split del: if_split cong: if_cong)
  from susp obtain th3 where at3: "vec_at ths3 (g_current rt) = Inr th3"
    by (cases "vec_at ths3 (g_current rt)")
       (simp_all add: thread_work_def cur sub cross Let_def log_event_def dem enq
          platform_yield_to_scheduler_def
          split del: if_split cong: if_cong)
  have "rt1 = rt\<lparr>g_threads := ths3[nat (g_current rt) := th3\<lparr>cx := Saved\<rparr>],
                     g_log := g_log rt @ [(''qexpire'', g_current rt, ''auto-yield'')],
                     g_sched := s3\<rparr>"
    using susp thread_work_crossing [OF cur sub cross dem enq at3] by simp
  then show ?thesis
    using sub cross dem enq at3 by blast
qed

lemma enqueue_other_policy:
  assumes "policy s \<noteq> MLFQ" and "enqueue ths t s = Inr (s', ths')"
  shows "ths' = ths \<and> policy s' = policy s"
  using assms
  by (cases "policy s")
     (auto simp: enqueue_def enqueue_rr_def enqueue_prio_def split: sum.splits)

text \<open>
  C9. When the budget of the running task stays strictly positive after the decrement by
  \<open>max 1 units\<close>, \<^verbatim>\<open>thread_work\<close> returns at once with that value, and the runtime it
  leaves differs from the one it found in the caller's \<^verbatim>\<open>quantum_budget\<close> only: the
  caller's state and level, every other task, the ready structures, the wait registry and
  the trace are as before.
\<close>

theorem thread_work_below_quantum:
  assumes "vec_at (g_threads rt) (g_current rt) = Inr th"
    and "0 < quantum_budget th - max 1 units"
    and "quantum_budget th - max 1 units < 2 ^ 31"
  shows "thread_work units rt =
           Inr (Returned (quantum_budget th - max 1 units)
                  (rt\<lparr>g_threads := (g_threads rt)[nat (g_current rt) :=
                                      th\<lparr>quantum_budget := quantum_budget th - max 1 units\<rparr>]\<rparr>))"
  using assms by (rule thread_work_returns)

theorem thread_work_below_quantum_witness:
  "thread_work 3 (one_task RoundRobin RUNNING 8 0 [] [[], [], []] [])
     = Inr (Returned 5 (one_task RoundRobin RUNNING 5 0 [] [[], [], []] []))"
proof -
  let ?rt = "one_task RoundRobin RUNNING 8 0 [] [[], [], []] []"
  have cur: "vec_at (g_threads ?rt) (g_current ?rt) = Inr (g_threads ?rt ! 0)"
    by (simp add: one_task_def vec_at_def)
  show ?thesis
    using thread_work_below_quantum [OF cur, of 3]
    by (simp add: one_task_def)
qed

text \<open>
  C7. Under MLFQ, a \<^verbatim>\<open>thread_work\<close> call that uses the budget up logs \<^verbatim>\<open>qexpire\<close> and
  suspends, and the level of the task is then \<open>min (prev + 1) (levels - 1)\<close>. The
  hypotheses are what the setters and the first enqueue establish: at least one level, a
  level that is not negative, and one quantum per level.
\<close>

theorem qexpire_demotes:
  assumes cur: "vec_at (g_threads rt) (g_current rt) = Inr th"
    and pol: "policy (g_sched rt) = MLFQ"
    and cross: "quantum_budget th - max 1 units \<le> 0"
    and rng: "- (2 ^ 31) \<le> quantum_budget th - max 1 units"
    and lv: "1 \<le> levels (g_sched rt)" "0 \<le> mlfq_level th"
    and qb: "int (length (quantum_by_level (g_sched rt))) = levels (g_sched rt)"
  shows "\<exists>rt'. thread_work units rt = Inr (Suspended rt')
           \<and> mlfq_level (g_threads rt' ! nat (g_current rt))
               = min (mlfq_level th + 1) (levels (g_sched rt) - 1)
           \<and> g_log rt' = g_log rt @ [(''qexpire'', g_current rt, ''auto-yield'')]"
proof -
  let ?t = "g_current rt"
  let ?s = "g_sched rt"
  let ?b = "quantum_budget th - max 1 units"
  let ?l = "min (mlfq_level th + 1) (levels ?s - 1)"
  let ?ths1 = "(g_threads rt)[nat ?t := th\<lparr>quantum_budget := ?b\<rparr>]"
  let ?th2 = "th\<lparr>quantum_budget := ?b\<rparr>\<lparr>mlfq_level := ?l, quantum_budget := quantum_by_level ?s ! nat ?l\<rparr>"
  let ?ths2 = "?ths1[nat ?t := ?th2]"
  have t_ok: "0 \<le> ?t" "?t < int (length (g_threads rt))"
    using vec_at_Inr [OF cur] by simp_all
  have sub: "int_sub (quantum_budget th) (max 1 units) = Inr ?b"
    using cross rng by (simp add: int_sub_def)
  have l_rng: "0 \<le> ?l" "?l \<le> levels ?s - 1"
    using lv by simp_all
  have at1: "vec_at ?ths1 ?t = Inr (th\<lparr>quantum_budget := ?b\<rparr>)"
    using t_ok by (simp add: vec_at_def)
  have "demote_mlfq ?s ?ths1 ?t = Inr ?ths2"
    using l_rng qb by (intro demote_mlfq_MLFQ [OF pol at1]) simp_all
  then have dem: "(if policy ?s = MLFQ then demote_mlfq ?s ?ths1 ?t else Inr ?ths1) = Inr ?ths2"
    using pol by simp
  have at2: "?ths2 ! nat ?t = ?th2"
    using t_ok by simp
  have lvl2: "mlfq_level ?th2 = ?l"
    by simp
  let ?enq = "if state (?ths2 ! nat ?t) = RUNNING
              then enqueue (?ths2[nat ?t := (?ths2 ! nat ?t)\<lparr>state := READY\<rparr>]) ?t ?s
              else Inr (?s, ?ths2)"
  have "\<exists>s3 ths3. ?enq = Inr (s3, ths3) \<and> mlfq_level (ths3 ! nat ?t) = ?l
          \<and> length ths3 = length (g_threads rt)"
  proof (cases "state (?ths2 ! nat ?t) = RUNNING")
    case True
    let ?ths = "?ths2[nat ?t := (?ths2 ! nat ?t)\<lparr>state := READY\<rparr>]"
    have at: "vec_at ?ths ?t = Inr (?th2\<lparr>state := READY\<rparr>)"
      using t_ok by (simp add: vec_at_def)
    let ?th3 = "?th2\<lparr>state := READY\<rparr>
               \<lparr>mlfq_level := clamp (mlfq_level (?th2\<lparr>state := READY\<rparr>)) 0 (levels ?s - 1),
                quantum_budget := quantum_by_level (init_mlfq_if_needed ?s) !
                   nat (clamp (mlfq_level (?th2\<lparr>state := READY\<rparr>)) 0 (levels ?s - 1))\<rparr>"
    from enqueue_mlfq_level [OF lv(1) at]
    obtain s' where e: "enqueue_mlfq ?ths ?t ?s = Inr (s', ?ths[nat ?t := ?th3])"
      by blast
    have l3: "mlfq_level ?th3 = ?l"
      using l_rng by (simp add: clamp_inside)
    have "?enq = Inr (s', ?ths[nat ?t := ?th3])"
      using True e pol by (simp add: enqueue_def)
    moreover have "mlfq_level ((?ths[nat ?t := ?th3]) ! nat ?t) = ?l"
      using t_ok l3 by simp
    moreover have "length (?ths[nat ?t := ?th3]) = length (g_threads rt)"
      by simp
    ultimately show ?thesis by blast
  next
    case False
    have "?enq = Inr (?s, ?ths2)"
      using False by simp
    moreover have "mlfq_level (?ths2 ! nat ?t) = ?l"
      using at2 lvl2 by simp
    moreover have "length ?ths2 = length (g_threads rt)"
      by simp
    ultimately show ?thesis by blast
  qed
  then obtain s3 ths3 where enq: "?enq = Inr (s3, ths3)"
    and lvl3: "mlfq_level (ths3 ! nat ?t) = ?l"
    and len3: "length ths3 = length (g_threads rt)"
    by blast
  have at3: "vec_at ths3 ?t = Inr (ths3 ! nat ?t)"
    using t_ok len3 by (simp add: vec_at_def)
  have "thread_work units rt =
          Inr (Suspended
                 (rt\<lparr>g_threads := ths3[nat ?t := (ths3 ! nat ?t)\<lparr>cx := Saved\<rparr>],
                     g_log := g_log rt @ [(''qexpire'', ?t, ''auto-yield'')],
                     g_sched := s3\<rparr>))"
    by (rule thread_work_crossing [OF cur sub cross dem enq at3])
  then show ?thesis
    using t_ok len3 lvl3 by simp
qed

theorem qexpire_demotes_witness:
  "\<exists>rt'. thread_work 100 (one_task MLFQ RUNNING 8 0 [] [[], [], []] []) = Inr (Suspended rt')
         \<and> mlfq_level (g_threads rt' ! 0) = 1
         \<and> g_log rt' = [(''qexpire'', 0, ''auto-yield'')]"
proof -
  let ?rt = "one_task MLFQ RUNNING 8 0 [] [[], [], []] []"
  have cur: "vec_at (g_threads ?rt) (g_current ?rt) = Inr (g_threads ?rt ! 0)"
    by (simp add: one_task_def vec_at_def)
  show ?thesis
    using qexpire_demotes [OF cur, of 100]
    by (simp add: one_task_def)
qed

lemma enqueue_mlfq_exact:
  assumes lv: "1 \<le> levels s" and th: "vec_at ths t = Inr th"
  shows "enqueue_mlfq ths t s =
           Inr ((init_mlfq_if_needed s)
                  \<lparr>mlfq := (mlfq (init_mlfq_if_needed s))
                     [nat (clamp (mlfq_level th) 0 (levels s - 1)) :=
                        mlfq (init_mlfq_if_needed s) ! nat (clamp (mlfq_level th) 0 (levels s - 1)) @ [t]]\<rparr>,
                ths[nat t := th\<lparr>mlfq_level := clamp (mlfq_level th) 0 (levels s - 1),
                                 quantum_budget :=
                                   quantum_by_level (init_mlfq_if_needed s) !
                                     nat (clamp (mlfq_level th) 0 (levels s - 1))\<rparr>])"
proof -
  let ?s = "init_mlfq_if_needed s"
  let ?l = "clamp (mlfq_level th) 0 (levels s - 1)"
  have r: "0 \<le> ?l \<and> ?l \<le> levels s - 1"
    using lv by (intro clamp_range) simp
  have sz: "int (length (mlfq ?s)) = levels s" "int (length (quantum_by_level ?s)) = levels s"
    using lv by (simp_all add: init_mlfq_if_needed_sizes)
  have q: "vec_at (quantum_by_level ?s) ?l = Inr (quantum_by_level ?s ! nat ?l)"
    using r sz by (intro vec_at_in_range) simp_all
  have m: "vec_at (mlfq ?s) ?l = Inr (mlfq ?s ! nat ?l)"
    using r sz by (intro vec_at_in_range) simp_all
  show ?thesis
    by (simp add: enqueue_mlfq_def Let_def th q m init_mlfq_if_needed_fields)
qed

lemma enqueue_other_exact:
  assumes other: "policy s \<noteq> MLFQ" and t: "valid_tid ths t"
    and q: "\<forall>x \<in> set (rrq s). valid_tid ths x"
  shows "enqueue ths t s =
           Inr (if policy s = RoundRobin then s\<lparr>rrq := rrq s @ [t]\<rparr>
                else s\<lparr>rrq := takeWhile (\<lambda>x. \<not> outranked ths t x) (rrq s) @ t #
                               dropWhile (\<lambda>x. \<not> outranked ths t x) (rrq s)\<rparr>,
                ths)"
proof (cases "policy s")
  case RoundRobin
  then show ?thesis by (simp add: enqueue_def enqueue_rr_def)
next
  case Priority
  then show ?thesis
    by (simp add: enqueue_def enqueue_prio_def enqueue_prio_scan_eq [OF t q])
next
  case MLFQ
  with other show ?thesis by simp
qed

text \<open>The used-up branch of \<^verbatim>\<open>thread_work\<close> under RoundRobin and Priority.\<close>

lemma thread_work_suspends_other:
  assumes cur: "vec_at (g_threads rt) (g_current rt) = Inr th"
    and other: "policy (g_sched rt) \<noteq> MLFQ"
    and cross: "quantum_budget th - max 1 units \<le> 0"
    and rng: "- (2 ^ 31) \<le> quantum_budget th - max 1 units"
    and q: "\<forall>x \<in> set (rrq (g_sched rt)). valid_tid (g_threads rt) x"
  shows "\<exists>rt1. thread_work units rt = Inr (Suspended rt1)
           \<and> quantum_budget (g_threads rt1 ! nat (g_current rt)) = quantum_budget th - max 1 units
           \<and> cx (g_threads rt1 ! nat (g_current rt)) = Saved
           \<and> g_log rt1 = g_log rt @ [(''qexpire'', g_current rt, ''auto-yield'')]"
proof -
  let ?t = "g_current rt"
  let ?s = "g_sched rt"
  let ?b = "quantum_budget th - max 1 units"
  let ?ths1 = "(g_threads rt)[nat ?t := th\<lparr>quantum_budget := ?b\<rparr>]"
  have t_ok: "0 \<le> ?t" "?t < int (length (g_threads rt))"
    using vec_at_Inr [OF cur] by simp_all
  have sub: "int_sub (quantum_budget th) (max 1 units) = Inr ?b"
    using cross rng by (simp add: int_sub_def)
  have dem: "(if policy ?s = MLFQ then demote_mlfq ?s ?ths1 ?t else Inr ?ths1) = Inr ?ths1"
    using other by simp
  have at1: "?ths1 ! nat ?t = th\<lparr>quantum_budget := ?b\<rparr>"
    using t_ok by simp
  let ?enq = "if state (?ths1 ! nat ?t) = RUNNING
              then enqueue (?ths1[nat ?t := (?ths1 ! nat ?t)\<lparr>state := READY\<rparr>]) ?t ?s
              else Inr (?s, ?ths1)"
  have "\<exists>s3 ths3. ?enq = Inr (s3, ths3) \<and> quantum_budget (ths3 ! nat ?t) = ?b
          \<and> length ths3 = length (g_threads rt)"
  proof (cases "state (?ths1 ! nat ?t) = RUNNING")
    case True
    let ?ths = "?ths1[nat ?t := (?ths1 ! nat ?t)\<lparr>state := READY\<rparr>]"
    have v: "valid_tid ?ths ?t" "\<forall>x \<in> set (rrq ?s). valid_tid ?ths x"
      using t_ok q by (simp_all add: valid_tid_def)
    from enqueue_other_exact [OF other v]
    obtain s' where "enqueue ?ths ?t ?s = Inr (s', ?ths)" by blast
    then have "?enq = Inr (s', ?ths)"
      using True by simp
    moreover have "quantum_budget (?ths ! nat ?t) = ?b"
      using t_ok by simp
    moreover have "length ?ths = length (g_threads rt)"
      by simp
    ultimately show ?thesis by blast
  next
    case False
    have "?enq = Inr (?s, ?ths1)"
      using False by simp
    moreover have "quantum_budget (?ths1 ! nat ?t) = ?b"
      using t_ok by simp
    moreover have "length ?ths1 = length (g_threads rt)"
      by simp
    ultimately show ?thesis by blast
  qed
  then obtain s3 ths3 where enq: "?enq = Inr (s3, ths3)"
    and b3: "quantum_budget (ths3 ! nat ?t) = ?b"
    and len3: "length ths3 = length (g_threads rt)"
    by blast
  have at3: "vec_at ths3 ?t = Inr (ths3 ! nat ?t)"
    using t_ok len3 by (simp add: vec_at_def)
  have "thread_work units rt =
          Inr (Suspended
                 (rt\<lparr>g_threads := ths3[nat ?t := (ths3 ! nat ?t)\<lparr>cx := Saved\<rparr>],
                     g_log := g_log rt @ [(''qexpire'', ?t, ''auto-yield'')],
                     g_sched := s3\<rparr>))"
    by (rule thread_work_crossing [OF cur sub cross dem enq at3])
  then show ?thesis
    using t_ok len3 b3 by simp
qed

lemma thread_work_suspends_mlfq:
  assumes cur: "vec_at (g_threads rt) (g_current rt) = Inr th"
    and pol: "policy (g_sched rt) = MLFQ"
    and cross: "quantum_budget th - max 1 units \<le> 0"
    and rng: "- (2 ^ 31) \<le> quantum_budget th - max 1 units"
    and lv: "1 \<le> levels (g_sched rt)" "0 \<le> mlfq_level th"
    and qb: "int (length (quantum_by_level (g_sched rt))) = levels (g_sched rt)"
  shows "\<exists>rt'. thread_work units rt = Inr (Suspended rt')
           \<and> mlfq_level (g_threads rt' ! nat (g_current rt))
               = min (mlfq_level th + 1) (levels (g_sched rt) - 1)
           \<and> quantum_budget (g_threads rt' ! nat (g_current rt))
               = quantum_by_level (g_sched rt) !
                   nat (min (mlfq_level th + 1) (levels (g_sched rt) - 1))
           \<and> cx (g_threads rt' ! nat (g_current rt)) = Saved
           \<and> g_log rt' = g_log rt @ [(''qexpire'', g_current rt, ''auto-yield'')]"
proof -
  let ?t = "g_current rt"
  let ?s = "g_sched rt"
  let ?b = "quantum_budget th - max 1 units"
  let ?l = "min (mlfq_level th + 1) (levels ?s - 1)"
  let ?ths1 = "(g_threads rt)[nat ?t := th\<lparr>quantum_budget := ?b\<rparr>]"
  let ?th2 = "th\<lparr>quantum_budget := ?b\<rparr>\<lparr>mlfq_level := ?l, quantum_budget := quantum_by_level ?s ! nat ?l\<rparr>"
  let ?ths2 = "?ths1[nat ?t := ?th2]"
  have t_ok: "0 \<le> ?t" "?t < int (length (g_threads rt))"
    using vec_at_Inr [OF cur] by simp_all
  have sub: "int_sub (quantum_budget th) (max 1 units) = Inr ?b"
    using cross rng by (simp add: int_sub_def)
  have l_rng: "0 \<le> ?l" "?l \<le> levels ?s - 1"
    using lv by simp_all
  have at1: "vec_at ?ths1 ?t = Inr (th\<lparr>quantum_budget := ?b\<rparr>)"
    using t_ok by (simp add: vec_at_def)
  have "demote_mlfq ?s ?ths1 ?t = Inr ?ths2"
    using l_rng qb by (intro demote_mlfq_MLFQ [OF pol at1]) simp_all
  then have dem: "(if policy ?s = MLFQ then demote_mlfq ?s ?ths1 ?t else Inr ?ths1) = Inr ?ths2"
    using pol by simp
  have at2: "?ths2 ! nat ?t = ?th2"
    using t_ok by simp
  have lvl2: "mlfq_level ?th2 = ?l"
    by simp
  let ?enq = "if state (?ths2 ! nat ?t) = RUNNING
              then enqueue (?ths2[nat ?t := (?ths2 ! nat ?t)\<lparr>state := READY\<rparr>]) ?t ?s
              else Inr (?s, ?ths2)"
  have "\<exists>s3 ths3. ?enq = Inr (s3, ths3) \<and> mlfq_level (ths3 ! nat ?t) = ?l
          \<and> quantum_budget (ths3 ! nat ?t) = quantum_by_level ?s ! nat ?l
          \<and> length ths3 = length (g_threads rt)"
  proof (cases "state (?ths2 ! nat ?t) = RUNNING")
    case True
    let ?ths = "?ths2[nat ?t := (?ths2 ! nat ?t)\<lparr>state := READY\<rparr>]"
    have at: "vec_at ?ths ?t = Inr (?th2\<lparr>state := READY\<rparr>)"
      using t_ok by (simp add: vec_at_def)
    let ?th3 = "?th2\<lparr>state := READY\<rparr>
               \<lparr>mlfq_level := clamp (mlfq_level (?th2\<lparr>state := READY\<rparr>)) 0 (levels ?s - 1),
                quantum_budget := quantum_by_level (init_mlfq_if_needed ?s) !
                   nat (clamp (mlfq_level (?th2\<lparr>state := READY\<rparr>)) 0 (levels ?s - 1))\<rparr>"
    from enqueue_mlfq_level [OF lv(1) at]
    obtain s' where e: "enqueue_mlfq ?ths ?t ?s = Inr (s', ?ths[nat ?t := ?th3])"
      by blast
    have l3: "mlfq_level ?th3 = ?l"
      using l_rng by (simp add: clamp_inside)
    have b3: "quantum_budget ?th3 = quantum_by_level ?s ! nat ?l"
      using l_rng by (simp add: clamp_inside init_mlfq_if_needed_keeps_quanta [OF qb])
    have "?enq = Inr (s', ?ths[nat ?t := ?th3])"
      using True e pol by (simp add: enqueue_def)
    moreover have "mlfq_level ((?ths[nat ?t := ?th3]) ! nat ?t) = ?l"
      using t_ok l3 by simp
    moreover have "quantum_budget ((?ths[nat ?t := ?th3]) ! nat ?t) = quantum_by_level ?s ! nat ?l"
      using t_ok b3 by simp
    moreover have "length (?ths[nat ?t := ?th3]) = length (g_threads rt)"
      by simp
    ultimately show ?thesis by blast
  next
    case False
    have "?enq = Inr (?s, ?ths2)"
      using False by simp
    moreover have "mlfq_level (?ths2 ! nat ?t) = ?l"
      using at2 lvl2 by simp
    moreover have "quantum_budget (?ths2 ! nat ?t) = quantum_by_level ?s ! nat ?l"
      using at2 by simp
    moreover have "length ?ths2 = length (g_threads rt)"
      by simp
    ultimately show ?thesis by blast
  qed
  then obtain s3 ths3 where enq: "?enq = Inr (s3, ths3)"
    and lvl3: "mlfq_level (ths3 ! nat ?t) = ?l"
    and bud3: "quantum_budget (ths3 ! nat ?t) = quantum_by_level ?s ! nat ?l"
    and len3: "length ths3 = length (g_threads rt)"
    by blast
  have at3: "vec_at ths3 ?t = Inr (ths3 ! nat ?t)"
    using t_ok len3 by (simp add: vec_at_def)
  have "thread_work units rt =
          Inr (Suspended
                 (rt\<lparr>g_threads := ths3[nat ?t := (ths3 ! nat ?t)\<lparr>cx := Saved\<rparr>],
                     g_log := g_log rt @ [(''qexpire'', ?t, ''auto-yield'')],
                     g_sched := s3\<rparr>))"
    by (rule thread_work_crossing [OF cur sub cross dem enq at3])
  then show ?thesis
    using t_ok len3 lvl3 bud3 by simp
qed

text \<open>\<^verbatim>\<open>switch_to_thread\<close> on a task that was suspended inside a call, under MLFQ.\<close>

lemma switch_to_thread_mlfq:
  assumes pol: "policy (g_sched r) = MLFQ"
    and at: "vec_at (g_threads r) t = Inr th"
    and st: "state th \<noteq> NEW" and saved: "cx th = Saved"
    and lvl: "0 \<le> mlfq_level th" "mlfq_level th < int (length (quantum_by_level (g_sched r)))"
  shows "switch_to_thread t r =
           Inr (r\<lparr>g_current := t,
                   g_threads := (g_threads r)[nat t :=
                      th\<lparr>state := RUNNING,
                         quantum_budget := quantum_by_level (g_sched r) ! nat (mlfq_level th)\<rparr>],
                   g_log := g_log r @ [(''run'', t, name th)]\<rparr>)"
proof -
  have ens: "ensure_context t r = Inr r"
    using st by (simp add: ensure_context_def at)
  have q: "vec_at (quantum_by_level (g_sched r)) (mlfq_level th)
             = Inr (quantum_by_level (g_sched r) ! nat (mlfq_level th))"
    using lvl by (rule vec_at_in_range)
  show ?thesis
    by (simp add: switch_to_thread_def ens at Let_def pol q saved log_event_def)
qed

text \<open>
  C3, as amended. \<^verbatim>\<open>thread_work\<close> takes \<open>max 1 units\<close> from the budget of the running
  task. When the result is positive the call returns it at once and nothing else changes.
  Otherwise \<^verbatim>\<open>qexpire\<close> is logged and the task suspends, its context saved. Under
  RoundRobin and Priority the task holds the decremented value, zero or negative, when it
  suspends. Under MLFQ it is demoted and holds the quantum of its new level when it
  suspends, and \<^verbatim>\<open>switch_to_thread\<close>, resuming a suspended task under MLFQ, sets the
  budget to \<^verbatim>\<open>quantum_by_level[mlfq_level]\<close>: that quantum, not the decremented budget,
  is what the call returns. What a resumed call returns under RoundRobin and Priority is
  not part of the statement.
\<close>

theorem thread_work_return_value:
  assumes cur: "vec_at (g_threads rt) (g_current rt) = Inr th"
    and rng: "- (2 ^ 31) \<le> quantum_budget th - max 1 units"
      "quantum_budget th - max 1 units < 2 ^ 31"
  shows "(0 < quantum_budget th - max 1 units \<longrightarrow>
            thread_work units rt =
              Inr (Returned (quantum_budget th - max 1 units)
                     (rt\<lparr>g_threads := (g_threads rt)[nat (g_current rt) :=
                                         th\<lparr>quantum_budget := quantum_budget th - max 1 units\<rparr>]\<rparr>)))
       \<and> (quantum_budget th - max 1 units \<le> 0 \<and> policy (g_sched rt) \<noteq> MLFQ
            \<and> (\<forall>x \<in> set (rrq (g_sched rt)). valid_tid (g_threads rt) x) \<longrightarrow>
            (\<exists>rt1. thread_work units rt = Inr (Suspended rt1)
               \<and> quantum_budget (g_threads rt1 ! nat (g_current rt)) = quantum_budget th - max 1 units
               \<and> cx (g_threads rt1 ! nat (g_current rt)) = Saved
               \<and> g_log rt1 = g_log rt @ [(''qexpire'', g_current rt, ''auto-yield'')]))
       \<and> (quantum_budget th - max 1 units \<le> 0 \<and> policy (g_sched rt) = MLFQ
            \<and> 1 \<le> levels (g_sched rt) \<and> 0 \<le> mlfq_level th
            \<and> int (length (quantum_by_level (g_sched rt))) = levels (g_sched rt) \<longrightarrow>
            (\<exists>rt1. thread_work units rt = Inr (Suspended rt1)
               \<and> mlfq_level (g_threads rt1 ! nat (g_current rt))
                   = min (mlfq_level th + 1) (levels (g_sched rt) - 1)
               \<and> quantum_budget (g_threads rt1 ! nat (g_current rt))
                   = quantum_by_level (g_sched rt) !
                       nat (min (mlfq_level th + 1) (levels (g_sched rt) - 1))
               \<and> cx (g_threads rt1 ! nat (g_current rt)) = Saved
               \<and> g_log rt1 = g_log rt @ [(''qexpire'', g_current rt, ''auto-yield'')]))
       \<and> (\<forall>(r :: Runtime) t th'. policy (g_sched r) = MLFQ \<and> vec_at (g_threads r) t = Inr th'
              \<and> state th' \<noteq> NEW \<and> cx th' = Saved
              \<and> 0 \<le> mlfq_level th'
              \<and> mlfq_level th' < int (length (quantum_by_level (g_sched r))) \<longrightarrow>
            (\<exists>r2. switch_to_thread t r = Inr r2
               \<and> thread_work_resumed t r2 = quantum_by_level (g_sched r) ! nat (mlfq_level th')))"
proof (intro conjI allI impI)
  assume "0 < quantum_budget th - max 1 units"
  then show "thread_work units rt =
              Inr (Returned (quantum_budget th - max 1 units)
                     (rt\<lparr>g_threads := (g_threads rt)[nat (g_current rt) :=
                                         th\<lparr>quantum_budget := quantum_budget th - max 1 units\<rparr>]\<rparr>))"
    using cur rng(2) by (intro thread_work_returns)
next
  assume h: "quantum_budget th - max 1 units \<le> 0 \<and> policy (g_sched rt) \<noteq> MLFQ
            \<and> (\<forall>x \<in> set (rrq (g_sched rt)). valid_tid (g_threads rt) x)"
  then show "\<exists>rt1. thread_work units rt = Inr (Suspended rt1)
               \<and> quantum_budget (g_threads rt1 ! nat (g_current rt)) = quantum_budget th - max 1 units
               \<and> cx (g_threads rt1 ! nat (g_current rt)) = Saved
               \<and> g_log rt1 = g_log rt @ [(''qexpire'', g_current rt, ''auto-yield'')]"
    using cur rng(1) by (intro thread_work_suspends_other) simp_all
next
  assume h: "quantum_budget th - max 1 units \<le> 0 \<and> policy (g_sched rt) = MLFQ
            \<and> 1 \<le> levels (g_sched rt) \<and> 0 \<le> mlfq_level th
            \<and> int (length (quantum_by_level (g_sched rt))) = levels (g_sched rt)"
  then show "\<exists>rt1. thread_work units rt = Inr (Suspended rt1)
               \<and> mlfq_level (g_threads rt1 ! nat (g_current rt))
                   = min (mlfq_level th + 1) (levels (g_sched rt) - 1)
               \<and> quantum_budget (g_threads rt1 ! nat (g_current rt))
                   = quantum_by_level (g_sched rt) !
                       nat (min (mlfq_level th + 1) (levels (g_sched rt) - 1))
               \<and> cx (g_threads rt1 ! nat (g_current rt)) = Saved
               \<and> g_log rt1 = g_log rt @ [(''qexpire'', g_current rt, ''auto-yield'')]"
    using cur rng(1) by (intro thread_work_suspends_mlfq) simp_all
next
  fix r :: Runtime and t th'
  assume h: "policy (g_sched r) = MLFQ \<and> vec_at (g_threads r) t = Inr th'
              \<and> state th' \<noteq> NEW \<and> cx th' = Saved
              \<and> 0 \<le> mlfq_level th'
              \<and> mlfq_level th' < int (length (quantum_by_level (g_sched r)))"
  then have t_ok: "0 \<le> t" "t < int (length (g_threads r))"
    using vec_at_Inr [of "g_threads r" t th'] by simp_all
  from h have "switch_to_thread t r =
           Inr (r\<lparr>g_current := t,
                   g_threads := (g_threads r)[nat t :=
                      th'\<lparr>state := RUNNING,
                          quantum_budget := quantum_by_level (g_sched r) ! nat (mlfq_level th')\<rparr>],
                   g_log := g_log r @ [(''run'', t, name th')]\<rparr>)"
    by (intro switch_to_thread_mlfq) simp_all
  then show "\<exists>r2. switch_to_thread t r = Inr r2
               \<and> thread_work_resumed t r2 = quantum_by_level (g_sched r) ! nat (mlfq_level th')"
    using t_ok by (simp add: thread_work_resumed_def)
qed

theorem thread_work_return_value_witness:
  "thread_work 3 (one_task Priority RUNNING 8 0 [] [[], [], []] [])
     = Inr (Returned 5 (one_task Priority RUNNING 5 0 [] [[], [], []] []))
   \<and> (\<exists>rt1. thread_work 8 (one_task RoundRobin RUNNING 8 0 [] [[], [], []] []) = Inr (Suspended rt1)
         \<and> quantum_budget (g_threads rt1 ! 0) = 0)
   \<and> (\<exists>rt1. thread_work 100 (one_task MLFQ RUNNING 8 0 [] [[], [], []] []) = Inr (Suspended rt1)
         \<and> mlfq_level (g_threads rt1 ! 0) = 1 \<and> quantum_budget (g_threads rt1 ! 0) = 4)
   \<and> (\<exists>r2. switch_to_thread 0 (one_task MLFQ READY 4 1 [] [[], [], []] []) = Inr r2
         \<and> thread_work_resumed 0 r2 = 4)"
proof -
  let ?p = "one_task Priority RUNNING 8 0 [] [[], [], []] []"
  let ?r = "one_task RoundRobin RUNNING 8 0 [] [[], [], []] []"
  let ?m = "one_task MLFQ RUNNING 8 0 [] [[], [], []] []"
  let ?d = "one_task MLFQ READY 4 1 [] [[], [], []] []"
  have cur: "vec_at (g_threads ?p) (g_current ?p) = Inr (g_threads ?p ! 0)"
    "vec_at (g_threads ?r) (g_current ?r) = Inr (g_threads ?r ! 0)"
    "vec_at (g_threads ?m) (g_current ?m) = Inr (g_threads ?m ! 0)"
    by (simp_all add: one_task_def vec_at_def)
  have a: "thread_work 3 ?p = Inr (Returned 5 (one_task Priority RUNNING 5 0 [] [[], [], []] []))"
    using thread_work_return_value [OF cur(1), of 3, THEN conjunct1]
    by (simp add: one_task_def)
  have b: "\<exists>rt1. thread_work 8 ?r = Inr (Suspended rt1) \<and> quantum_budget (g_threads rt1 ! 0) = 0"
    using thread_work_return_value [OF cur(2), of 8, THEN conjunct2, THEN conjunct1]
    by (auto simp: one_task_def)
  have c: "\<exists>rt1. thread_work 100 ?m = Inr (Suspended rt1)
             \<and> mlfq_level (g_threads rt1 ! 0) = 1 \<and> quantum_budget (g_threads rt1 ! 0) = 4"
    using thread_work_return_value [OF cur(3), of 100, THEN conjunct2, THEN conjunct2, THEN conjunct1]
    by (auto simp: one_task_def)
  have d: "\<exists>r2. switch_to_thread 0 ?d = Inr r2 \<and> thread_work_resumed 0 r2 = 4"
    using thread_work_return_value [OF cur(3), of 100, THEN conjunct2, THEN conjunct2, THEN conjunct2,
            rule_format, of ?d 0 "g_threads ?d ! 0"]
    by (auto simp: one_task_def vec_at_def)
  show ?thesis
    using a b c d by blast
qed

text \<open>
  C3 as stated fails under MLFQ: a task with budget 8 at level 0 calls
  \<^verbatim>\<open>thread_work(100)\<close>, is demoted and requeued with the quantum 4 of level 1, and is
  dispatched again by the next \<^verbatim>\<open>schedule_once\<close>; the call then returns 4, not the
  remaining budget \<open>8 - 100\<close>.
\<close>

theorem thread_work_return_value_counterexample:
  "thread_work 100 (one_task MLFQ RUNNING 8 0 [] [[], [], []] [])
     = Inr (Suspended (one_task MLFQ READY 4 1 [] [[], [0], []] [(''qexpire'', 0, ''auto-yield'')]))
   \<and> schedule_once 1 1 (one_task MLFQ READY 4 1 [] [[], [0], []] [(''qexpire'', 0, ''auto-yield'')])
     = Inr (Dispatched 0 (one_task MLFQ RUNNING 4 1 [] [[], [], []]
              [(''qexpire'', 0, ''auto-yield''), (''run'', 0, ''A'')]))
   \<and> thread_work_resumed 0 (one_task MLFQ RUNNING 4 1 [] [[], [], []]
              [(''qexpire'', 0, ''auto-yield''), (''run'', 0, ''A'')]) = 4
   \<and> (4 :: int) \<noteq> 8 - max 1 100"
  by (simp add: eval_defs)

subsection \<open>Dispatch\<close>

text \<open>
  C2 at its failing input. Under RoundRobin a task with budget 8 calls \<^verbatim>\<open>thread_work(8)\<close>
  and suspends with budget 0; the next \<^verbatim>\<open>schedule_once\<close> pops it and
  \<^verbatim>\<open>switch_to_thread\<close> resumes it with the budget still 0. Only \<^verbatim>\<open>context_trampoline\<close>,
  on the first start of a task, raises a budget below 1 to 1.
\<close>

theorem redispatch_keeps_spent_budget:
  "thread_work 8 (one_task RoundRobin RUNNING 8 0 [] [[], [], []] [])
     = Inr (Suspended (one_task RoundRobin READY 0 0 [0] [[], [], []] [(''qexpire'', 0, ''auto-yield'')]))
   \<and> schedule_once 1 1 (one_task RoundRobin READY 0 0 [0] [[], [], []] [(''qexpire'', 0, ''auto-yield'')])
     = Inr (Dispatched 0 (one_task RoundRobin RUNNING 0 0 [] [[], [], []]
              [(''qexpire'', 0, ''auto-yield''), (''run'', 0, ''A'')]))
   \<and> quantum_budget (g_threads (one_task RoundRobin RUNNING 0 0 [] [[], [], []]
              [(''qexpire'', 0, ''auto-yield''), (''run'', 0, ''A'')]) ! 0) = 0
   \<and> context_trampoline 0 (one_task RoundRobin READY 0 0 [] [[], [], []] [])
     = Inr (one_task RoundRobin RUNNING 1 0 [] [[], [], []] [(''start'', 0, ''A'')])"
  by (simp add: eval_defs context_trampoline_def)

text \<open>
  On this branch \<^verbatim>\<open>ensure_context\<close> builds the entry context only for a task that is
  still NEW, and \<^verbatim>\<open>schedule_once\<close> has made every NEW task READY before it pops one.
  So the first dispatch of a freshly created task finds a context that was never
  initialised. The runtimes used above therefore start from a task whose context is in
  place.
\<close>

lemma first_dispatch_finds_no_context:
  "schedule_once 1 1 (snd (thread_create ''A'' 1 (boot 0))) = Inl (BadContext 0)"
  by (simp add: eval_defs thread_create_def boot_def)

text \<open>
  C4 at its failing input. Before any task was dispatched \<^verbatim>\<open>g_current\<close> is \<open>-1\<close>;
  \<^verbatim>\<open>thread_yield\<close> then skips the requeue, but still calls
  \<^verbatim>\<open>platform_yield_to_scheduler\<close>, which indexes \<^verbatim>\<open>g_threads\<close> at \<open>-1\<close> for the context
  to save.
\<close>

theorem thread_yield_without_task:
  "thread_yield (boot 0) = Inl (OutOfRange (- 1))"
  by (simp add: thread_yield_def boot_def platform_yield_to_scheduler_def vec_at_def)

subsection \<open>Aging\<close>

lemma age_scan_skip:
  assumes "\<forall>j \<in> set js. j < length (mlfq (g_sched rt)) \<and> mlfq (g_sched rt) ! j = []"
  shows "age_scan (js @ rest) rt = age_scan rest rt"
  using assms by (induction js) (simp_all add: vec_at_def)

lemma age_scan_all_empty:
  assumes "\<forall>j \<in> set js. j < length (mlfq (g_sched rt)) \<and> mlfq (g_sched rt) ! j = []"
  shows "age_scan js rt = Inr rt"
  using age_scan_skip [OF assms, of "[]"] by simp

lemma age_scan_hit:
  assumes L: "1 \<le> L" "L < length (mlfq (g_sched rt))"
    and head: "mlfq (g_sched rt) ! L = t # dq"
    and th: "vec_at (g_threads rt) t = Inr th"
    and q: "L - 1 < length (quantum_by_level (g_sched rt))"
  shows "age_scan (L # rest) rt =
           Inr (rt\<lparr>g_sched := (g_sched rt)\<lparr>mlfq := (mlfq (g_sched rt))
                                  [L := dq, L - 1 := mlfq (g_sched rt) ! (L - 1) @ [t]]\<rparr>,
                   g_threads := (g_threads rt)[nat t := th\<lparr>mlfq_level := int L - 1,
                                     quantum_budget := quantum_by_level (g_sched rt) ! (L - 1)\<rparr>],
                   g_log := g_log rt @ [(''age'', t, ''promote'')]\<rparr>)"
proof -
  have a: "vec_at (mlfq (g_sched rt)) (int L) = Inr (t # dq)"
    using L head by (simp add: vec_at_def)
  have b: "vec_at (quantum_by_level (g_sched rt)) (int L - 1) = Inr (quantum_by_level (g_sched rt) ! (L - 1))"
    using L q by (simp add: vec_at_def nat_diff_distrib')
  have c: "(mlfq (g_sched rt))[L := dq] ! (L - 1) = mlfq (g_sched rt) ! (L - 1)"
    using L by simp
  show ?thesis
    using c by (simp add: a b th Let_def log_event_def)
qed

lemma rev_upt_split:
  assumes "1 \<le> L" "L < n"
  shows "rev [1..<n] = rev [Suc L..<n] @ L # rev [1..<L]"
proof -
  have "[1..<L + (n - L)] = [1..<L] @ [L..<L + (n - L)]"
    using assms(1) by (rule upt_add_eq_append)
  then have "[1..<n] = [1..<L] @ [L..<n]"
    using assms(2) by simp
  also have "[L..<n] = L # [Suc L..<n]"
    using assms by (simp add: upt_conv_Cons)
  finally show ?thesis by simp
qed

text \<open>
  C6. When \<^verbatim>\<open>maybe_age\<close> fires (MLFQ, aging enabled, the interval elapsed) it sets
  \<^verbatim>\<open>last_age_ms\<close> to the clock's reading. With all levels above 0 empty nothing else
  changes. Otherwise, for the highest-numbered non-empty level \<open>L \<ge> 1\<close>, the head of
  that level is removed, appended to level \<open>L - 1\<close>, given the level \<open>L - 1\<close> and the
  quantum of that level, and one \<^verbatim>\<open>age\<close> event is logged; nothing else changes, so one
  task is promoted, and none from level 0.
\<close>

theorem aging_step:
  assumes pol: "policy (g_sched rt) = MLFQ" and on: "enable_aging (g_sched rt)"
    and due: "aging_interval_ms (g_sched rt) \<le> now - last_age_ms (g_sched rt)"
    and sizes: "int (length (mlfq (g_sched rt))) = levels (g_sched rt)"
  shows "((\<forall>j. 1 \<le> j \<and> j < length (mlfq (g_sched rt)) \<longrightarrow> mlfq (g_sched rt) ! j = []) \<longrightarrow>
            maybe_age now rt = Inr (rt\<lparr>g_sched := (g_sched rt)\<lparr>last_age_ms := now\<rparr>\<rparr>))
       \<and> (\<forall>L t dq th.
             1 \<le> L \<and> L < length (mlfq (g_sched rt)) \<and> mlfq (g_sched rt) ! L = t # dq
           \<and> (\<forall>j. L < j \<and> j < length (mlfq (g_sched rt)) \<longrightarrow> mlfq (g_sched rt) ! j = [])
           \<and> vec_at (g_threads rt) t = Inr th
           \<and> L - 1 < length (quantum_by_level (g_sched rt)) \<longrightarrow>
             maybe_age now rt =
               Inr (rt\<lparr>g_sched := (g_sched rt)\<lparr>last_age_ms := now,
                                     mlfq := (mlfq (g_sched rt))
                                       [L := dq, L - 1 := mlfq (g_sched rt) ! (L - 1) @ [t]]\<rparr>,
                       g_threads := (g_threads rt)[nat t := th\<lparr>mlfq_level := int L - 1,
                                         quantum_budget := quantum_by_level (g_sched rt) ! (L - 1)\<rparr>],
                       g_log := g_log rt @ [(''age'', t, ''promote'')]\<rparr>))"
proof (intro conjI allI impI)
  let ?s = "g_sched rt"
  let ?rt = "rt\<lparr>g_sched := ?s\<lparr>last_age_ms := now\<rparr>\<rparr>"
  have n: "nat (levels ?s) = length (mlfq ?s)"
    using sizes by simp
  have unfold: "maybe_age now rt = age_scan (rev [1..<length (mlfq ?s)]) ?rt"
    using pol on due by (simp add: maybe_age_def Let_def n)
  {
    assume "\<forall>j. 1 \<le> j \<and> j < length (mlfq ?s) \<longrightarrow> mlfq ?s ! j = []"
    then have "\<forall>j \<in> set (rev [1..<length (mlfq ?s)]).
                 j < length (mlfq (g_sched ?rt)) \<and> mlfq (g_sched ?rt) ! j = []"
      by simp
    from age_scan_all_empty [OF this]
    show "maybe_age now rt = Inr ?rt"
      by (simp add: unfold)
  }
  {
    fix L t dq th
    assume h: "1 \<le> L \<and> L < length (mlfq ?s) \<and> mlfq ?s ! L = t # dq
           \<and> (\<forall>j. L < j \<and> j < length (mlfq ?s) \<longrightarrow> mlfq ?s ! j = [])
           \<and> vec_at (g_threads rt) t = Inr th
           \<and> L - 1 < length (quantum_by_level ?s)"
    then have above: "\<forall>j \<in> set (rev [Suc L..<length (mlfq ?s)]).
                 j < length (mlfq (g_sched ?rt)) \<and> mlfq (g_sched ?rt) ! j = []"
      by simp
    have split: "rev [1..<length (mlfq ?s)] = rev [Suc L..<length (mlfq ?s)] @ L # rev [1..<L]"
      using h by (intro rev_upt_split) simp_all
    have "maybe_age now rt = age_scan (L # rev [1..<L]) ?rt"
      unfolding unfold split by (rule age_scan_skip [OF above])
    also have "\<dots> = Inr (?rt\<lparr>g_sched := (g_sched ?rt)\<lparr>mlfq := (mlfq (g_sched ?rt))
                                  [L := dq, L - 1 := mlfq (g_sched ?rt) ! (L - 1) @ [t]]\<rparr>,
                   g_threads := (g_threads ?rt)[nat t := th\<lparr>mlfq_level := int L - 1,
                                     quantum_budget := quantum_by_level (g_sched ?rt) ! (L - 1)\<rparr>],
                   g_log := g_log ?rt @ [(''age'', t, ''promote'')]\<rparr>)"
      using h by (intro age_scan_hit) simp_all
    finally show "maybe_age now rt =
               Inr (rt\<lparr>g_sched := ?s\<lparr>last_age_ms := now,
                                     mlfq := (mlfq ?s)[L := dq, L - 1 := mlfq ?s ! (L - 1) @ [t]]\<rparr>,
                       g_threads := (g_threads rt)[nat t := th\<lparr>mlfq_level := int L - 1,
                                         quantum_budget := quantum_by_level ?s ! (L - 1)\<rparr>],
                       g_log := g_log rt @ [(''age'', t, ''promote'')]\<rparr>)"
      by simp
  }
qed

theorem aging_step_witness:
  "maybe_age 500 (one_task MLFQ READY 2 2 [] [[], [], [0]] [])
     = Inr ((one_task MLFQ READY 4 1 [] [[], [0], []] [(''age'', 0, ''promote'')])
              \<lparr>g_sched := (g_sched (one_task MLFQ READY 4 1 [] [[], [0], []] []))\<lparr>last_age_ms := 500\<rparr>\<rparr>)
   \<and> maybe_age 500 (one_task MLFQ READY 8 0 [] [[0], [], []] [])
     = Inr ((one_task MLFQ READY 8 0 [] [[0], [], []] [])
              \<lparr>g_sched := (g_sched (one_task MLFQ READY 8 0 [] [[0], [], []] []))\<lparr>last_age_ms := 500\<rparr>\<rparr>)"
proof -
  let ?a = "one_task MLFQ READY 2 2 [] [[], [], [0]] []"
  let ?b = "one_task MLFQ READY 8 0 [] [[0], [], []] []"
  have upper: "\<forall>j. 1 \<le> j \<and> j < length (mlfq (g_sched ?b)) \<longrightarrow> mlfq (g_sched ?b) ! j = []"
  proof (intro allI impI)
    fix j :: nat
    assume "1 \<le> j \<and> j < length (mlfq (g_sched ?b))"
    then have "j = 1 \<or> j = 2"
      by (auto simp: one_task_def)
    then show "mlfq (g_sched ?b) ! j = []"
      by (auto simp: one_task_def)
  qed
  have cfg: "policy (g_sched ?b) = MLFQ" "enable_aging (g_sched ?b)"
    "aging_interval_ms (g_sched ?b) \<le> 500 - last_age_ms (g_sched ?b)"
    "int (length (mlfq (g_sched ?b))) = levels (g_sched ?b)"
    by (simp_all add: one_task_def)
  have a: "maybe_age 500 ?a =
             Inr (?a\<lparr>g_sched := (g_sched ?a)\<lparr>last_age_ms := 500,
                                     mlfq := (mlfq (g_sched ?a))
                                       [2 := [], 2 - 1 := mlfq (g_sched ?a) ! (2 - 1) @ [0]]\<rparr>,
                       g_threads := (g_threads ?a)[nat 0 := (g_threads ?a ! 0)\<lparr>mlfq_level := int 2 - 1,
                                         quantum_budget := quantum_by_level (g_sched ?a) ! (2 - 1)\<rparr>],
                       g_log := g_log ?a @ [(''age'', 0, ''promote'')]\<rparr>)"
    using aging_step [of ?a 500, THEN conjunct2, rule_format, of 2 0 "[]" "g_threads ?a ! 0"]
    by (simp add: one_task_def vec_at_def)
  have b: "maybe_age 500 ?b = Inr (?b\<lparr>g_sched := (g_sched ?b)\<lparr>last_age_ms := 500\<rparr>\<rparr>)"
    using aging_step [OF cfg, THEN conjunct1] upper by blast
  show ?thesis
    using a b by (simp add: one_task_def)
qed

subsection \<open>Wait and signal\<close>

lemma enqueue_keeps_state:
  assumes "enqueue ths t s = Inr (s', ths')"
  shows "length ths' = length ths \<and> (\<forall>i < length ths. state (ths' ! i) = state (ths ! i))"
proof (cases "policy s")
  case RoundRobin
  with assms show ?thesis by (simp add: enqueue_def)
next
  case Priority
  with assms show ?thesis by (auto simp: enqueue_def split: sum.splits)
next
  case MLFQ
  with assms have e: "enqueue_mlfq ths t s = Inr (s', ths')"
    by (simp add: enqueue_def)
  then obtain th where th: "vec_at ths t = Inr th"
    by (cases "vec_at ths t") (simp_all add: enqueue_mlfq_def Let_def)
  from e th obtain l q where "ths' = ths[nat t := th\<lparr>mlfq_level := l, quantum_budget := q\<rparr>]"
    by (auto simp: enqueue_mlfq_def Let_def split: sum.splits)
  moreover have "th = ths ! nat t"
    using vec_at_Inr [OF th] by simp
  ultimately have eq: "ths' = ths[nat t := (ths ! nat t)\<lparr>mlfq_level := l, quantum_budget := q\<rparr>]"
    by simp
  have "state (ths' ! i) = state (ths ! i)" if "i < length ths" for i
    using that unfolding eq by (cases "i = nat t") simp_all
  then show ?thesis
    by (simp add: eq)
qed

lemma thread_wait_queue:
  assumes "thread_wait r rt = Inr rt2"
  shows "g_resources rt2 r =
           Some ((case g_resources rt r of None \<Rightarrow> [] | Some ws \<Rightarrow> ws) @ [g_current rt])"
  using assms
  by (auto simp: thread_wait_def Let_def log_event_def platform_yield_to_scheduler_def
           split: sum.splits if_splits)

text \<open>A change of state changes no priority, so the scan of the queue sees the same ranks.\<close>

lemma outranked_state_update:
  assumes "vec_at ths t = Inr th"
  shows "outranked (ths[nat t := th\<lparr>state := st\<rparr>]) a x = outranked ths a x"
proof -
  have t_ok: "nat t < length ths" and th: "th = ths ! nat t"
    using vec_at_Inr [OF assms] by (auto simp: nat_less_iff)
  have "base_priority ((ths[nat t := th\<lparr>state := st\<rparr>]) ! n) = base_priority (ths ! n)" for n
    using t_ok th by (cases "n = nat t") simp_all
  then show ?thesis
    by (simp add: outranked_def prio_of_def)
qed

text \<open>
  C8. \<^verbatim>\<open>thread_signal\<close> on a resource that has no entry in the registry, or an empty
  queue, returns the runtime as it found it: no task state, no queue and no trace line
  changes, and nothing is kept for a later waiter. With waiters, the head of the queue is
  removed and no other. When that task is BLOCKED it becomes READY, \<^verbatim>\<open>signal\<close> is logged
  and the task enters the ready structure of the policy: the tail of the queue under
  RoundRobin, the place before the first queued task of lower priority under Priority, the
  tail of the queue of its clamped level under MLFQ. A head in another state is removed
  and nothing more happens. The queue is in arrival order, since \<^verbatim>\<open>thread_wait\<close> appends
  the caller at its back.
\<close>

theorem thread_signal_wakes_head:
  "((g_resources rt r = None \<or> g_resources rt r = Some []) \<longrightarrow> thread_signal r rt = Inr rt)
   \<and> (\<forall>t ws th. g_resources rt r = Some (t # ws) \<and> vec_at (g_threads rt) t = Inr th
          \<and> state th \<noteq> BLOCKED \<longrightarrow>
        thread_signal r rt = Inr (rt\<lparr>g_resources := (g_resources rt)(r \<mapsto> ws)\<rparr>))
   \<and> (\<forall>t ws th s' ths'. g_resources rt r = Some (t # ws) \<and> vec_at (g_threads rt) t = Inr th
          \<and> state th = BLOCKED
          \<and> enqueue ((g_threads rt)[nat t := th\<lparr>state := READY\<rparr>]) t (g_sched rt) = Inr (s', ths') \<longrightarrow>
        thread_signal r rt =
          Inr (rt\<lparr>g_resources := (g_resources rt)(r \<mapsto> ws), g_sched := s', g_threads := ths',
                  g_log := g_log rt @ [(''signal'', t, r)]\<rparr>)
        \<and> state (ths' ! nat t) = READY
        \<and> (\<forall>i < length (g_threads rt). i \<noteq> nat t \<longrightarrow> state (ths' ! i) = state (g_threads rt ! i)))
   \<and> (\<forall>rt2. thread_wait r rt = Inr rt2 \<longrightarrow>
        g_resources rt2 r =
          Some ((case g_resources rt r of None \<Rightarrow> [] | Some ws \<Rightarrow> ws) @ [g_current rt]))
   \<and> (\<forall>t ws th. g_resources rt r = Some (t # ws) \<and> vec_at (g_threads rt) t = Inr th
          \<and> state th = BLOCKED \<and> policy (g_sched rt) = RoundRobin \<longrightarrow>
        thread_signal r rt =
          Inr (rt\<lparr>g_resources := (g_resources rt)(r \<mapsto> ws),
                  g_sched := (g_sched rt)\<lparr>rrq := rrq (g_sched rt) @ [t]\<rparr>,
                  g_threads := (g_threads rt)[nat t := th\<lparr>state := READY\<rparr>],
                  g_log := g_log rt @ [(''signal'', t, r)]\<rparr>))
   \<and> (\<forall>t ws th. g_resources rt r = Some (t # ws) \<and> vec_at (g_threads rt) t = Inr th
          \<and> state th = BLOCKED \<and> policy (g_sched rt) = Priority
          \<and> (\<forall>x \<in> set (rrq (g_sched rt)). valid_tid (g_threads rt) x) \<longrightarrow>
        thread_signal r rt =
          Inr (rt\<lparr>g_resources := (g_resources rt)(r \<mapsto> ws),
                  g_sched := (g_sched rt)
                    \<lparr>rrq := takeWhile (\<lambda>x. \<not> outranked (g_threads rt) t x) (rrq (g_sched rt)) @ t #
                              dropWhile (\<lambda>x. \<not> outranked (g_threads rt) t x) (rrq (g_sched rt))\<rparr>,
                  g_threads := (g_threads rt)[nat t := th\<lparr>state := READY\<rparr>],
                  g_log := g_log rt @ [(''signal'', t, r)]\<rparr>))
   \<and> (\<forall>t ws th. g_resources rt r = Some (t # ws) \<and> vec_at (g_threads rt) t = Inr th
          \<and> state th = BLOCKED \<and> policy (g_sched rt) = MLFQ \<and> 1 \<le> levels (g_sched rt) \<longrightarrow>
        thread_signal r rt =
          Inr (rt\<lparr>g_resources := (g_resources rt)(r \<mapsto> ws),
                  g_sched := (init_mlfq_if_needed (g_sched rt))
                    \<lparr>mlfq := (mlfq (init_mlfq_if_needed (g_sched rt)))
                       [nat (clamp (mlfq_level th) 0 (levels (g_sched rt) - 1)) :=
                          mlfq (init_mlfq_if_needed (g_sched rt)) !
                            nat (clamp (mlfq_level th) 0 (levels (g_sched rt) - 1)) @ [t]]\<rparr>,
                  g_threads := (g_threads rt)[nat t :=
                     th\<lparr>state := READY,
                        mlfq_level := clamp (mlfq_level th) 0 (levels (g_sched rt) - 1),
                        quantum_budget :=
                          quantum_by_level (init_mlfq_if_needed (g_sched rt)) !
                            nat (clamp (mlfq_level th) 0 (levels (g_sched rt) - 1))\<rparr>],
                  g_log := g_log rt @ [(''signal'', t, r)]\<rparr>))
   \<and> (\<forall>th. vec_at (g_threads rt) (g_current rt) = Inr th \<and> policy (g_sched rt) \<noteq> MLFQ \<longrightarrow>
        thread_wait r rt =
          Inr (rt\<lparr>g_threads := (g_threads rt)[nat (g_current rt) := th\<lparr>state := BLOCKED, cx := Saved\<rparr>],
                  g_resources := (g_resources rt)
                    (r \<mapsto> (case g_resources rt r of None \<Rightarrow> [] | Some ws \<Rightarrow> ws) @ [g_current rt]),
                  g_log := g_log rt @ [(''wait'', g_current rt, r)]\<rparr>))"
proof (intro conjI allI impI)
  assume "g_resources rt r = None \<or> g_resources rt r = Some []"
  then show "thread_signal r rt = Inr rt"
    by (auto simp: thread_signal_def)
next
  fix t ws th
  assume "g_resources rt r = Some (t # ws) \<and> vec_at (g_threads rt) t = Inr th \<and> state th \<noteq> BLOCKED"
  then show "thread_signal r rt = Inr (rt\<lparr>g_resources := (g_resources rt)(r \<mapsto> ws)\<rparr>)"
    by (simp add: thread_signal_def Let_def)
next
  fix t ws th s' ths'
  assume h: "g_resources rt r = Some (t # ws) \<and> vec_at (g_threads rt) t = Inr th
          \<and> state th = BLOCKED
          \<and> enqueue ((g_threads rt)[nat t := th\<lparr>state := READY\<rparr>]) t (g_sched rt) = Inr (s', ths')"
  then show "thread_signal r rt =
          Inr (rt\<lparr>g_resources := (g_resources rt)(r \<mapsto> ws), g_sched := s', g_threads := ths',
                  g_log := g_log rt @ [(''signal'', t, r)]\<rparr>)"
    by (simp add: thread_signal_def Let_def log_event_def)
  have t_ok: "0 \<le> t" "t < int (length (g_threads rt))"
    using h vec_at_Inr [of "g_threads rt" t th] by simp_all
  from h enqueue_keeps_state [of "(g_threads rt)[nat t := th\<lparr>state := READY\<rparr>]" t "g_sched rt" s' ths']
  have keep: "\<forall>i < length (g_threads rt).
                state (ths' ! i) = state ((g_threads rt)[nat t := th\<lparr>state := READY\<rparr>] ! i)"
    by simp
  show "state (ths' ! nat t) = READY"
    using keep t_ok by simp
  show "state (ths' ! i) = state (g_threads rt ! i)" if "i < length (g_threads rt)" "i \<noteq> nat t" for i
    using keep that by simp
next
  fix rt2
  assume "thread_wait r rt = Inr rt2"
  then show "g_resources rt2 r =
          Some ((case g_resources rt r of None \<Rightarrow> [] | Some ws \<Rightarrow> ws) @ [g_current rt])"
    by (rule thread_wait_queue)
next
  fix t ws th
  assume h: "g_resources rt r = Some (t # ws) \<and> vec_at (g_threads rt) t = Inr th
          \<and> state th = BLOCKED \<and> policy (g_sched rt) = RoundRobin"
  then show "thread_signal r rt =
          Inr (rt\<lparr>g_resources := (g_resources rt)(r \<mapsto> ws),
                  g_sched := (g_sched rt)\<lparr>rrq := rrq (g_sched rt) @ [t]\<rparr>,
                  g_threads := (g_threads rt)[nat t := th\<lparr>state := READY\<rparr>],
                  g_log := g_log rt @ [(''signal'', t, r)]\<rparr>)"
    by (simp add: thread_signal_def Let_def log_event_def enqueue_def enqueue_rr_def)
next
  fix t ws th
  assume h: "g_resources rt r = Some (t # ws) \<and> vec_at (g_threads rt) t = Inr th
          \<and> state th = BLOCKED \<and> policy (g_sched rt) = Priority
          \<and> (\<forall>x \<in> set (rrq (g_sched rt)). valid_tid (g_threads rt) x)"
  let ?ths = "(g_threads rt)[nat t := th\<lparr>state := READY\<rparr>]"
  have at: "vec_at (g_threads rt) t = Inr th"
    using h by simp
  have v: "valid_tid ?ths t" "\<forall>x \<in> set (rrq (g_sched rt)). valid_tid ?ths x"
    using h vec_at_Inr [OF at] by (simp_all add: valid_tid_def)
  have other: "policy (g_sched rt) \<noteq> MLFQ"
    using h by simp
  have "enqueue ?ths t (g_sched rt) =
          Inr ((g_sched rt)
                 \<lparr>rrq := takeWhile (\<lambda>x. \<not> outranked (g_threads rt) t x) (rrq (g_sched rt)) @ t #
                           dropWhile (\<lambda>x. \<not> outranked (g_threads rt) t x) (rrq (g_sched rt))\<rparr>,
               ?ths)"
    using enqueue_other_exact [OF other v] h
    by (simp add: outranked_state_update [OF at])
  then show "thread_signal r rt =
          Inr (rt\<lparr>g_resources := (g_resources rt)(r \<mapsto> ws),
                  g_sched := (g_sched rt)
                    \<lparr>rrq := takeWhile (\<lambda>x. \<not> outranked (g_threads rt) t x) (rrq (g_sched rt)) @ t #
                              dropWhile (\<lambda>x. \<not> outranked (g_threads rt) t x) (rrq (g_sched rt))\<rparr>,
                  g_threads := (g_threads rt)[nat t := th\<lparr>state := READY\<rparr>],
                  g_log := g_log rt @ [(''signal'', t, r)]\<rparr>)"
    using h by (simp add: thread_signal_def Let_def log_event_def)
next
  fix t ws th
  assume h: "g_resources rt r = Some (t # ws) \<and> vec_at (g_threads rt) t = Inr th
          \<and> state th = BLOCKED \<and> policy (g_sched rt) = MLFQ \<and> 1 \<le> levels (g_sched rt)"
  let ?ths = "(g_threads rt)[nat t := th\<lparr>state := READY\<rparr>]"
  have at: "vec_at (g_threads rt) t = Inr th" and lv: "1 \<le> levels (g_sched rt)"
    using h by simp_all
  have at': "vec_at ?ths t = Inr (th\<lparr>state := READY\<rparr>)"
    using vec_at_Inr [OF at] by (auto simp: vec_at_def nat_less_iff)
  have "enqueue ?ths t (g_sched rt) = enqueue_mlfq ?ths t (g_sched rt)"
    using h by (simp add: enqueue_def)
  then show "thread_signal r rt =
          Inr (rt\<lparr>g_resources := (g_resources rt)(r \<mapsto> ws),
                  g_sched := (init_mlfq_if_needed (g_sched rt))
                    \<lparr>mlfq := (mlfq (init_mlfq_if_needed (g_sched rt)))
                       [nat (clamp (mlfq_level th) 0 (levels (g_sched rt) - 1)) :=
                          mlfq (init_mlfq_if_needed (g_sched rt)) !
                            nat (clamp (mlfq_level th) 0 (levels (g_sched rt) - 1)) @ [t]]\<rparr>,
                  g_threads := (g_threads rt)[nat t :=
                     th\<lparr>state := READY,
                        mlfq_level := clamp (mlfq_level th) 0 (levels (g_sched rt) - 1),
                        quantum_budget :=
                          quantum_by_level (init_mlfq_if_needed (g_sched rt)) !
                            nat (clamp (mlfq_level th) 0 (levels (g_sched rt) - 1))\<rparr>],
                  g_log := g_log rt @ [(''signal'', t, r)]\<rparr>)"
    using h enqueue_mlfq_exact [OF lv at']
    by (simp add: thread_signal_def Let_def log_event_def)
next
  fix th
  assume h: "vec_at (g_threads rt) (g_current rt) = Inr th \<and> policy (g_sched rt) \<noteq> MLFQ"
  then have at: "vec_at (g_threads rt) (g_current rt) = Inr th"
    by simp
  have at': "vec_at ((g_threads rt)[nat (g_current rt) := th\<lparr>state := BLOCKED\<rparr>]) (g_current rt)
               = Inr (th\<lparr>state := BLOCKED\<rparr>)"
    using vec_at_Inr [OF at] by (auto simp: vec_at_def nat_less_iff)
  show "thread_wait r rt =
          Inr (rt\<lparr>g_threads := (g_threads rt)[nat (g_current rt) := th\<lparr>state := BLOCKED, cx := Saved\<rparr>],
                  g_resources := (g_resources rt)
                    (r \<mapsto> (case g_resources rt r of None \<Rightarrow> [] | Some ws \<Rightarrow> ws) @ [g_current rt]),
                  g_log := g_log rt @ [(''wait'', g_current rt, r)]\<rparr>)"
    using h by (simp add: thread_wait_def Let_def log_event_def platform_yield_to_scheduler_def at at')
qed


theorem thread_signal_wakes_head_witness:
  "thread_signal ''go'' (one_task RoundRobin RUNNING 8 0 [] [[], [], []] [])
     = Inr (one_task RoundRobin RUNNING 8 0 [] [[], [], []] [])
   \<and> thread_signal ''go''
       ((one_task RoundRobin BLOCKED 8 0 [] [[], [], []] [])\<lparr>g_resources := [''go'' \<mapsto> [0]]\<rparr>)
     = Inr ((one_task RoundRobin READY 8 0 [0] [[], [], []] [(''signal'', 0, ''go'')])
              \<lparr>g_resources := [''go'' \<mapsto> []]\<rparr>)
   \<and> thread_signal ''go''
       ((one_task Priority RUNNING 8 0 [0, 2] [[], [], []] [])
          \<lparr>g_threads := three_tasks[1 := (three_tasks ! 1)\<lparr>state := BLOCKED\<rparr>],
           g_resources := [''go'' \<mapsto> [1]]\<rparr>)
     = Inr ((one_task Priority RUNNING 8 0 [1, 0, 2] [[], [], []] [(''signal'', 1, ''go'')])
              \<lparr>g_threads := three_tasks, g_resources := [''go'' \<mapsto> []]\<rparr>)
   \<and> thread_signal ''go''
       ((one_task MLFQ BLOCKED 8 5 [] [[], [], []] [])\<lparr>g_resources := [''go'' \<mapsto> [0]]\<rparr>)
     = Inr ((one_task MLFQ READY 2 2 [] [[], [], [0]] [(''signal'', 0, ''go'')])
              \<lparr>g_resources := [''go'' \<mapsto> []]\<rparr>)"
proof -
  let ?a = "one_task RoundRobin RUNNING 8 0 [] [[], [], []] []"
  let ?b = "(one_task RoundRobin BLOCKED 8 0 [] [[], [], []] [])\<lparr>g_resources := [''go'' \<mapsto> [0]]\<rparr>"
  let ?p = "(one_task Priority RUNNING 8 0 [0, 2] [[], [], []] [])
              \<lparr>g_threads := three_tasks[1 := (three_tasks ! 1)\<lparr>state := BLOCKED\<rparr>],
               g_resources := [''go'' \<mapsto> [1]]\<rparr>"
  let ?m = "(one_task MLFQ BLOCKED 8 5 [] [[], [], []] [])\<lparr>g_resources := [''go'' \<mapsto> [0]]\<rparr>"
  have a: "thread_signal ''go'' ?a = Inr ?a"
    using thread_signal_wakes_head [of ?a "''go''", THEN conjunct1]
    by (simp add: one_task_def)
  have b: "thread_signal ''go'' ?b =
             Inr ((one_task RoundRobin READY 8 0 [0] [[], [], []] [(''signal'', 0, ''go'')])
                    \<lparr>g_resources := [''go'' \<mapsto> []]\<rparr>)"
    using thread_signal_wakes_head [of ?b "''go''", THEN conjunct2, THEN conjunct2, THEN conjunct2,
            THEN conjunct2, THEN conjunct1, rule_format, of 0 "[]" "g_threads ?b ! 0"]
    by (simp add: one_task_def vec_at_def)
  have p: "thread_signal ''go'' ?p =
             Inr ((one_task Priority RUNNING 8 0 [1, 0, 2] [[], [], []] [(''signal'', 1, ''go'')])
                    \<lparr>g_threads := three_tasks, g_resources := [''go'' \<mapsto> []]\<rparr>)"
    using thread_signal_wakes_head [of ?p "''go''", THEN conjunct2, THEN conjunct2, THEN conjunct2,
            THEN conjunct2, THEN conjunct2, THEN conjunct1, rule_format,
            of 1 "[]" "g_threads ?p ! 1"]
    by (simp add: one_task_def three_tasks_def vec_at_def valid_tid_def outranked_def prio_of_def)
  have m: "thread_signal ''go'' ?m =
             Inr ((one_task MLFQ READY 2 2 [] [[], [], [0]] [(''signal'', 0, ''go'')])
                    \<lparr>g_resources := [''go'' \<mapsto> []]\<rparr>)"
    using thread_signal_wakes_head [of ?m "''go''", THEN conjunct2, THEN conjunct2, THEN conjunct2,
            THEN conjunct2, THEN conjunct2, THEN conjunct2, THEN conjunct1, rule_format,
            of 0 "[]" "g_threads ?m ! 0"]
    by (simp add: one_task_def vec_at_def init_mlfq_if_needed_def clamp_def Let_def)
  show ?thesis
    using a b p m by simp
qed

end
